theory Spec2Isabelle
  imports Complex_Main
begin

section \<open>Data model of Debug/Instrumentor.h\<close>

text \<open>
  A value of C++ type \<open>double\<close>: a finite value is sign, magnitude mantissa and binary
  exponent (\<open>(-1)^s * m * 2^e\<close>, which also distinguishes \<open>-0.0\<close>), besides the two
  infinities and the NaNs. \<open>FloatingPointMicroseconds\<close> is a duration counted in such values.
\<close>

datatype double = Finite bool nat int | Infinite bool | NaN bool

type_synonym FloatingPointMicroseconds = double

text \<open>\<open>std::thread::id\<close> is opaque; the program only passes it on and prints it.\<close>

type_synonym thread_id = nat

record InstrumentationSession =
  Name :: string

text \<open>
  \<open>ElapsedTime\<close> is a \<open>std::chrono::microseconds\<close>, a signed 64-bit count. The only
  arithmetic the program performs on it is one subtraction of two counts that are each a
  clock reading divided by a thousand, which cannot leave the 64-bit range, so the count is
  an \<open>int\<close>.
\<close>

record ProfileResult =
  Name :: string
  Start :: FloatingPointMicroseconds
  ElapsedTime :: int
  ThreadID :: thread_id

text \<open>
  The output stream \<open>std::ofstream\<close>: the file it is attached to, if any, and its error
  state (\<open>failbit\<close> or \<open>badbit\<close> set).
\<close>

record ofstream =
  target :: "string option"
  failed :: bool

text \<open>
  Modelled from the spec: \<open>LOGW\<close> and \<open>LOGE\<close>, the macros of Debug/ConsoleLog.h, which
  this header includes. They hand a warning, respectively an error, with the given
  arguments to the logging collaborator; the event keeps the level and the arguments in the
  order the call site passes them.
\<close>

datatype level = Warning | Error

text \<open>
  Everything the header can observe or change outside its own members, as one trace of
  events in the order they happen: messages logged, and what the stream does to files.
\<close>

datatype event =
    Log level "string list"
  | Opened string
  | OpenFailed string
  | Wrote string string
  | Closed string

text \<open>
  The members of the \<open>Instrumentor\<close> singleton (the mutex has no sequential content), and
  the world around it: the content of every file by path, and the trace of events.
\<close>

record Instrumentor =
  m_CurrentSession :: "InstrumentationSession option"
  m_OutputStream :: ofstream

record world = Instrumentor +
  files :: "string \<rightharpoonup> string"
  trace :: "event list"

text \<open>The constructor \<open>Instrumentor()\<close>, in a world with the given files.\<close>

definition Instrumentor_init :: "(string \<rightharpoonup> string) \<Rightarrow> world" where
  "Instrumentor_init fs =
     \<lparr>m_CurrentSession = None,
      m_OutputStream = \<lparr>target = None, failed = False\<rparr>,
      files = fs, trace = []\<rparr>"

section \<open>The output stream\<close>

text \<open>
  \<open>m_OutputStream.open(filepath)\<close>. Whether the operating system grants the file is the
  input \<open>ok\<close>. Opening a stream that is already open fails; success truncates the file and
  clears the error state; failure sets it.
\<close>

definition stream_open :: "bool \<Rightarrow> string \<Rightarrow> world \<Rightarrow> world" where
  "stream_open ok filepath w =
     (case target (m_OutputStream w) of
        Some _ \<Rightarrow> w\<lparr>m_OutputStream := (m_OutputStream w)\<lparr>failed := True\<rparr>\<rparr>
      | None \<Rightarrow>
          if ok
          then w\<lparr>m_OutputStream := \<lparr>target = Some filepath, failed = False\<rparr>,
                 files := (files w)(filepath \<mapsto> []),
                 trace := trace w @ [Opened filepath]\<rparr>
          else w\<lparr>m_OutputStream := (m_OutputStream w)\<lparr>failed := True\<rparr>,
                 trace := trace w @ [OpenFailed filepath]\<rparr>)"

definition is_open :: "world \<Rightarrow> bool" where
  "is_open w = (target (m_OutputStream w) \<noteq> None)"

text \<open>
  \<open>m_OutputStream << text; m_OutputStream.flush();\<close> Every write of the header is followed
  by a flush, so the text is in the file when the operation returns. A stream in error
  state, or not attached to a file, writes nothing.
\<close>

definition stream_write :: "string \<Rightarrow> world \<Rightarrow> world" where
  "stream_write text w =
     (case target (m_OutputStream w) of
        None \<Rightarrow> w\<lparr>m_OutputStream := (m_OutputStream w)\<lparr>failed := True\<rparr>\<rparr>
      | Some p \<Rightarrow>
          if failed (m_OutputStream w) then w
          else w\<lparr>files := (files w)(p \<mapsto> (case files w p of None \<Rightarrow> text | Some c \<Rightarrow> c @ text)),
                 trace := trace w @ [Wrote p text]\<rparr>)"

text \<open>\<open>m_OutputStream.close()\<close>; closing a stream that is not open sets the error state.\<close>

definition stream_close :: "world \<Rightarrow> world" where
  "stream_close w =
     (case target (m_OutputStream w) of
        None \<Rightarrow> w\<lparr>m_OutputStream := (m_OutputStream w)\<lparr>failed := True\<rparr>\<rparr>
      | Some p \<Rightarrow> w\<lparr>m_OutputStream := (m_OutputStream w)\<lparr>target := None\<rparr>,
                    trace := trace w @ [Closed p]\<rparr>)"

section \<open>Rendering of numbers by the stream\<close>

definition digit_char :: "nat \<Rightarrow> char" where
  "digit_char d = ''0123456789'' ! d"

fun show_nat :: "nat \<Rightarrow> string" where
  "show_nat n = (if n < 10 then [digit_char n] else show_nat (n div 10) @ [digit_char (n mod 10)])"

declare show_nat.simps [simp del]

text \<open>An integer: decimal digits, a minus sign when negative; the float flags do not apply.\<close>

definition show_int :: "int \<Rightarrow> string" where
  "show_int i = (if i < 0 then CHR ''-'' # show_nat (nat (- i)) else show_nat (nat i))"

text \<open>
  The magnitude \<open>m * 2^e\<close> in thousandths, rounded to the nearest thousandth, a tie to the
  even one.
\<close>

definition thousandths :: "nat \<Rightarrow> int \<Rightarrow> nat" where
  "thousandths m e =
     (if 0 \<le> e then m * 2 ^ nat e * 1000
      else let d = 2 ^ nat (- e); n = m * 1000; q = n div d; r = n mod d
           in if d < 2 * r \<or> (2 * r = d \<and> odd q) then q + 1 else q)"

text \<open>
  A \<open>double\<close> under \<open>std::fixed\<close> and \<open>std::setprecision(3)\<close>, in the classic locale: the
  sign, the integer part, a point and three digits; \<open>inf\<close> and \<open>nan\<close> for the others.
\<close>

fun show_fixed3 :: "double \<Rightarrow> string" where
  "show_fixed3 (Finite s m e) =
     (let q = thousandths m e
      in (if s then ''-'' else []) @ show_nat (q div 1000) @ ''.'' @
         [digit_char (q div 100 mod 10), digit_char (q div 10 mod 10), digit_char (q mod 10)])"
| "show_fixed3 (Infinite s) = (if s then ''-inf'' else ''inf'')"
| "show_fixed3 (NaN s) = (if s then ''-nan'' else ''nan'')"

section \<open>The Instrumentor\<close>

definition prologue :: string where
  \<open>prologue = ''{"otherData": {},"traceEvents":[{}''\<close>

definition epilogue :: string where
  "epilogue = '']}''"

definition WriteHeader :: "world \<Rightarrow> world" where
  "WriteHeader w = stream_write prologue w"

definition WriteFooter :: "world \<Rightarrow> world" where
  "WriteFooter w = stream_write epilogue w"

definition InternalEndSession :: "world \<Rightarrow> world" where
  "InternalEndSession w =
     (case m_CurrentSession w of
        Some _ \<Rightarrow> (stream_close (WriteFooter w))\<lparr>m_CurrentSession := None\<rparr>
      | None \<Rightarrow> w)"

text \<open>The arguments of \<open>LOGW\<close> and of \<open>LOGE\<close> in \<open>BeginSession\<close>.\<close>

definition already_open_message :: "string \<Rightarrow> string \<Rightarrow> string list" where
  "already_open_message name current =
     [''Instrumentor::BeginSession('' @ [CHR 0x27], name,
      [CHR 0x27] @ '') when session '' @ [CHR 0x27], current,
      [CHR 0x27] @ '' already open.'']"

definition cannot_open_message :: "string \<Rightarrow> string list" where
  "cannot_open_message filepath =
     [''Instrumentor could not open results file '' @ [CHR 0x27], filepath, [CHR 0x27] @ ''.'']"

definition BeginSession :: "bool \<Rightarrow> string \<Rightarrow> string \<Rightarrow> world \<Rightarrow> world" where
  "BeginSession ok name filepath w =
     (let w1 = (case m_CurrentSession w of
                  Some current \<Rightarrow>
                    InternalEndSession
                      (w\<lparr>trace := trace w @
                           [Log Warning
                              (already_open_message name (InstrumentationSession.Name current))]\<rparr>)
                | None \<Rightarrow> w);
          w2 = stream_open ok filepath w1
      in if is_open w2
         then WriteHeader (w2\<lparr>m_CurrentSession := Some \<lparr>InstrumentationSession.Name = name\<rparr>\<rparr>)
         else w2\<lparr>trace := trace w2 @ [Log Error (cannot_open_message filepath)]\<rparr>)"

definition EndSession :: "world \<Rightarrow> world" where
  "EndSession w = InternalEndSession w"

text \<open>\<open>std::replace(name.begin(), name.end(), '"', '\'')\<close>\<close>

definition replace_quotes :: "string \<Rightarrow> string" where
  "replace_quotes name = map (\<lambda>c. if c = CHR 0x22 then CHR 0x27 else c) name"

text \<open>
  The text that \<open>WriteProfile\<close> assembles in its string stream. How a thread id prints is
  left to the C++ implementation, so it is the parameter \<open>tidtext\<close>.
\<close>

definition profile_json :: "(thread_id \<Rightarrow> string) \<Rightarrow> ProfileResult \<Rightarrow> string" where
  \<open>profile_json tidtext result =
     '',{'' @
     ''"cat":"function",'' @
     ''"dur":'' @ show_int (ElapsedTime result) @ '','' @
     ''"name":"'' @ replace_quotes (ProfileResult.Name result) @ ''",'' @
     ''"ph":"X",'' @
     ''"pid":0,'' @
     ''"tid":'' @ tidtext (ThreadID result) @ '','' @
     ''"ts":'' @ show_fixed3 (Start result) @
     ''}''\<close>

definition WriteProfile :: "(thread_id \<Rightarrow> string) \<Rightarrow> ProfileResult \<Rightarrow> world \<Rightarrow> world" where
  "WriteProfile tidtext result w =
     (let json = profile_json tidtext result
      in case m_CurrentSession w of
           Some _ \<Rightarrow> stream_write json w
         | None \<Rightarrow> w)"

text \<open>A call of one of the three public operations, and a sequence of calls.\<close>

datatype call =
    Begin bool string string
  | End
  | Write ProfileResult

fun do_call :: "(thread_id \<Rightarrow> string) \<Rightarrow> call \<Rightarrow> world \<Rightarrow> world" where
  "do_call tidtext (Begin ok name filepath) w = BeginSession ok name filepath w"
| "do_call tidtext End w = EndSession w"
| "do_call tidtext (Write result) w = WriteProfile tidtext result w"

fun do_calls :: "(thread_id \<Rightarrow> string) \<Rightarrow> call list \<Rightarrow> world \<Rightarrow> world" where
  "do_calls tidtext [] w = w"
| "do_calls tidtext (c # cs) w = do_calls tidtext cs (do_call tidtext c w)"

text \<open>
  The state the three operations keep: a session is open exactly when the stream is attached
  to a file, and then the stream is not in error state.
\<close>

definition consistent :: "world \<Rightarrow> bool" where
  "consistent w =
     ((m_CurrentSession w = None) = (target (m_OutputStream w) = None) \<and>
      (m_CurrentSession w = None \<or> \<not> failed (m_OutputStream w)))"

text \<open>A call that cannot open a session: anything but a \<open>BeginSession\<close> that is granted its file.\<close>

fun opens_nothing :: "call \<Rightarrow> bool" where
  "opens_nothing (Begin ok name filepath) = (\<not> ok)"
| "opens_nothing End = True"
| "opens_nothing (Write result) = True"

definition is_warning :: "event \<Rightarrow> bool" where
  "is_warning ev = (case ev of Log Warning args \<Rightarrow> True | _ \<Rightarrow> False)"

section \<open>The InstrumentationTimer\<close>

text \<open>
  A reading of \<open>std::chrono::steady_clock\<close> is a count of nanoseconds since the clock's
  epoch. \<open>time_point_cast<std::chrono::microseconds>\<close> divides by a thousand and truncates
  toward zero.
\<close>

type_synonym time_point = int

definition to_microseconds :: "time_point \<Rightarrow> int" where
  "to_microseconds t = (if t < 0 then - ((- t) div 1000) else t div 1000)"

text \<open>
  The conversion \<open>FloatingPointMicroseconds{ d }\<close> of a clock duration \<open>d\<close>: the count is
  converted to \<open>double\<close> and divided by \<open>1000.0\<close>, each step rounding to the nearest
  \<open>double\<close>, a tie to the even mantissa. \<open>fp_round s num den\<close> is the \<open>double\<close> of sign
  \<open>s\<close> nearest to \<open>num / den\<close>, with a mantissa of 53 bits; the quotients met here are
  far from the overflow and the underflow of the exponent.
\<close>

fun bit_length :: "nat \<Rightarrow> nat" where
  "bit_length n = (if n = 0 then 0 else Suc (bit_length (n div 2)))"

declare bit_length.simps [simp del]

definition scaled :: "nat \<Rightarrow> nat \<Rightarrow> int \<Rightarrow> nat \<times> nat" where
  "scaled num den e = (if 0 \<le> e then (num, den * 2 ^ nat e) else (num * 2 ^ nat (- e), den))"

definition fp_round :: "bool \<Rightarrow> nat \<Rightarrow> nat \<Rightarrow> double" where
  "fp_round s num den =
     (if num = 0 then Finite s 0 0
      else
        let e0 = int (bit_length num) - int (bit_length den) - 53;
            (n0, d0) = scaled num den e0;
            e = (if 2 ^ 53 \<le> n0 div d0 then e0 + 1 else e0);
            (n, d) = scaled num den e;
            q = n div d;
            r = n mod d
        in Finite s (if d < 2 * r \<or> (2 * r = d \<and> odd q) then q + 1 else q) e)"

definition double_of_int :: "int \<Rightarrow> double" where
  "double_of_int i = fp_round (i < 0) (nat \<bar>i\<bar>) 1"

fun double_div_1000 :: "double \<Rightarrow> double" where
  "double_div_1000 (Finite s m e) =
     (if 0 \<le> e then fp_round s (m * 2 ^ nat e) 1000 else fp_round s m (1000 * 2 ^ nat (- e)))"
| "double_div_1000 (Infinite s) = Infinite s"
| "double_div_1000 (NaN s) = NaN s"

definition to_FloatingPointMicroseconds :: "time_point \<Rightarrow> FloatingPointMicroseconds" where
  "to_FloatingPointMicroseconds d = double_div_1000 (double_of_int d)"

text \<open>
  The real number that a finite \<open>double\<close> stands for; \<open>pow2 e\<close> is the power \<open>2^e\<close> for an
  exponent of either sign.
\<close>

definition pow2 :: "int \<Rightarrow> real" where
  "pow2 e = (if 0 \<le> e then 2 ^ nat e else 1 / 2 ^ nat (- e))"

fun double_value :: "double \<Rightarrow> real option" where
  "double_value (Finite s m e) = Some ((if s then - 1 else 1) * real m * pow2 e)"
| "double_value _ = None"

record InstrumentationTimer =
  m_Name :: string
  m_StartTimepoint :: time_point
  m_Stopped :: bool

text \<open>The constructor; \<open>now\<close> is the reading of the clock.\<close>

definition InstrumentationTimer_init :: "time_point \<Rightarrow> string \<Rightarrow> InstrumentationTimer" where
  "InstrumentationTimer_init now name =
     \<lparr>m_Name = name, m_StartTimepoint = now, m_Stopped = False\<rparr>"

text \<open>
  \<open>Stop()\<close> returns the timer and the arguments of the calls of \<open>WriteProfile\<close> it made, in
  order. \<open>now\<close> is the reading of the clock and \<open>tid\<close> the calling thread.
\<close>

definition Stop ::
  "time_point \<Rightarrow> thread_id \<Rightarrow> InstrumentationTimer \<Rightarrow>
   InstrumentationTimer \<times> ProfileResult list" where
  "Stop now tid t =
     (let endTimepoint = now;
          highResStart = to_FloatingPointMicroseconds (m_StartTimepoint t);
          elapsedTime = to_microseconds endTimepoint - to_microseconds (m_StartTimepoint t)
      in (t\<lparr>m_Stopped := True\<rparr>,
          [\<lparr>ProfileResult.Name = m_Name t, Start = highResStart,
            ElapsedTime = elapsedTime, ThreadID = tid\<rparr>]))"

text \<open>The destructor.\<close>

definition InstrumentationTimer_destroy ::
  "time_point \<Rightarrow> thread_id \<Rightarrow> InstrumentationTimer \<Rightarrow>
   InstrumentationTimer \<times> ProfileResult list" where
  "InstrumentationTimer_destroy now tid t =
     (if \<not> m_Stopped t then Stop now tid t else (t, []))"

text \<open>
  The life of a timer after its construction: explicit calls of \<open>Stop()\<close>, each at its own
  clock reading on its own thread, and then the destructor. The result is every record
  handed to \<open>WriteProfile\<close>.
\<close>

fun explicit_stops ::
  "(time_point \<times> thread_id) list \<Rightarrow> InstrumentationTimer \<Rightarrow>
   InstrumentationTimer \<times> ProfileResult list" where
  "explicit_stops [] t = (t, [])"
| "explicit_stops ((now, tid) # rest) t =
     (let (t1, out1) = Stop now tid t;
          (t2, out2) = explicit_stops rest t1
      in (t2, out1 @ out2))"

definition lifetime ::
  "(time_point \<times> thread_id) list \<Rightarrow> time_point \<times> thread_id \<Rightarrow> InstrumentationTimer \<Rightarrow>
   ProfileResult list" where
  "lifetime stops final t =
     (let (t1, out1) = explicit_stops stops t;
          (t2, out2) = InstrumentationTimer_destroy (fst final) (snd final) t1
      in out1 @ out2)"

section \<open>JSON texts\<close>

text \<open>
  Whether a text is JSON is decided by the grammar of RFC 8259, read here one byte at a
  time by a pushdown automaton: the mode says what may come next, the stack which arrays
  and objects are open. A byte of 0x80 and above counts as part of an unescaped character.
\<close>

definition is_ws :: "char \<Rightarrow> bool" where
  "is_ws c = (c = CHR '' '' \<or> c = CHR 0x09 \<or> c = CHR 0x0A \<or> c = CHR 0x0D)"

definition is_digit :: "char \<Rightarrow> bool" where
  "is_digit c = (c \<in> set ''0123456789'')"

definition is_digit19 :: "char \<Rightarrow> bool" where
  "is_digit19 c = (c \<in> set ''123456789'')"

definition is_hex :: "char \<Rightarrow> bool" where
  "is_hex c = (c \<in> set ''0123456789abcdefABCDEF'')"

text \<open>\<open>number = [ minus ] int [ frac ] [ exp ]\<close>\<close>

datatype nmode = NStart | NMinus | NZero | NInt | NPoint | NFrac | NE | NESign | NExp

fun num_step :: "nmode \<Rightarrow> char \<Rightarrow> nmode option" where
  "num_step NStart c =
     (if c = CHR ''-'' then Some NMinus else if c = CHR ''0'' then Some NZero
      else if is_digit19 c then Some NInt else None)"
| "num_step NMinus c =
     (if c = CHR ''0'' then Some NZero else if is_digit19 c then Some NInt else None)"
| "num_step NZero c =
     (if c = CHR ''.'' then Some NPoint
      else if c = CHR ''e'' \<or> c = CHR ''E'' then Some NE else None)"
| "num_step NInt c =
     (if is_digit c then Some NInt else if c = CHR ''.'' then Some NPoint
      else if c = CHR ''e'' \<or> c = CHR ''E'' then Some NE else None)"
| "num_step NPoint c = (if is_digit c then Some NFrac else None)"
| "num_step NFrac c =
     (if is_digit c then Some NFrac
      else if c = CHR ''e'' \<or> c = CHR ''E'' then Some NE else None)"
| "num_step NE c =
     (if c = CHR ''+'' \<or> c = CHR ''-'' then Some NESign
      else if is_digit c then Some NExp else None)"
| "num_step NESign c = (if is_digit c then Some NExp else None)"
| "num_step NExp c = (if is_digit c then Some NExp else None)"

fun num_final :: "nmode \<Rightarrow> bool" where
  "num_final NZero = True"
| "num_final NInt = True"
| "num_final NFrac = True"
| "num_final NExp = True"
| "num_final _ = False"

fun num_run :: "nmode \<Rightarrow> string \<Rightarrow> nmode option" where
  "num_run m [] = Some m"
| "num_run m (c # cs) = (case num_step m c of None \<Rightarrow> None | Some m' \<Rightarrow> num_run m' cs)"

definition json_number :: "string \<Rightarrow> bool" where
  "json_number s = (case num_run NStart s of None \<Rightarrow> False | Some m \<Rightarrow> num_final m)"

datatype container = InArray | InObject

text \<open>
  \<open>Str k\<close> is inside a string, \<open>k\<close> telling whether it is the name of a member; \<open>Lit cs\<close> is
  inside \<open>true\<close>, \<open>false\<close> or \<open>null\<close> with \<open>cs\<close> still to come.
\<close>

datatype jmode =
    Value | ArrayFirst | ObjectFirst | ObjectKey | Colon | After
  | Str bool | StrEscape bool | StrHex bool nat
  | Num nmode
  | Lit string

type_synonym jstate = "jmode \<times> container list"

text \<open>After a value: white space, a comma, or the end of the innermost array or object.\<close>

definition after_step :: "container list \<Rightarrow> char \<Rightarrow> jstate option" where
  "after_step stack c =
     (if is_ws c then Some (After, stack)
      else if c = CHR '','' then
        (case stack of
           [] \<Rightarrow> None
         | InArray # _ \<Rightarrow> Some (Value, stack)
         | InObject # _ \<Rightarrow> Some (ObjectKey, stack))
      else if c = CHR '']'' then
        (case stack of InArray # rest \<Rightarrow> Some (After, rest) | _ \<Rightarrow> None)
      else if c = CHR ''}'' then
        (case stack of InObject # rest \<Rightarrow> Some (After, rest) | _ \<Rightarrow> None)
      else None)"

text \<open>The first byte of a value.\<close>

definition value_step :: "container list \<Rightarrow> char \<Rightarrow> jstate option" where
  "value_step stack c =
     (if c = CHR 0x22 then Some (Str False, stack)
      else if c = CHR ''{'' then Some (ObjectFirst, InObject # stack)
      else if c = CHR ''['' then Some (ArrayFirst, InArray # stack)
      else if c = CHR ''t'' then Some (Lit ''rue'', stack)
      else if c = CHR ''f'' then Some (Lit ''alse'', stack)
      else if c = CHR ''n'' then Some (Lit ''ull'', stack)
      else (case num_step NStart c of None \<Rightarrow> None | Some m \<Rightarrow> Some (Num m, stack)))"

fun step :: "jstate \<Rightarrow> char \<Rightarrow> jstate option" where
  "step (Value, stack) c = (if is_ws c then Some (Value, stack) else value_step stack c)"
| "step (ArrayFirst, stack) c =
     (if is_ws c then Some (ArrayFirst, stack)
      else if c = CHR '']'' then Some (After, tl stack)
      else value_step stack c)"
| "step (ObjectFirst, stack) c =
     (if is_ws c then Some (ObjectFirst, stack)
      else if c = CHR ''}'' then Some (After, tl stack)
      else if c = CHR 0x22 then Some (Str True, stack)
      else None)"
| "step (ObjectKey, stack) c =
     (if is_ws c then Some (ObjectKey, stack)
      else if c = CHR 0x22 then Some (Str True, stack)
      else None)"
| "step (Colon, stack) c =
     (if is_ws c then Some (Colon, stack)
      else if c = CHR '':'' then Some (Value, stack)
      else None)"
| "step (After, stack) c = after_step stack c"
| "step (Str k, stack) c =
     (if c = CHR 0x22 then Some (if k then Colon else After, stack)
      else if c = CHR 0x5C then Some (StrEscape k, stack)
      else if (of_char c :: nat) < 0x20 then None
      else Some (Str k, stack))"
| "step (StrEscape k, stack) c =
     (if c \<in> set [CHR 0x22, CHR 0x5C, CHR ''/'', CHR ''b'', CHR ''f'', CHR ''n'', CHR ''r'', CHR ''t'']
      then Some (Str k, stack)
      else if c = CHR ''u'' then Some (StrHex k 4, stack)
      else None)"
| "step (StrHex k n, stack) c =
     (if is_hex c then Some (if n \<le> 1 then Str k else StrHex k (n - 1), stack) else None)"
| "step (Num m, stack) c =
     (case num_step m c of
        Some m' \<Rightarrow> Some (Num m', stack)
      | None \<Rightarrow> if num_final m then after_step stack c else None)"
| "step (Lit [], stack) c = None"
| "step (Lit (x # xs), stack) c =
     (if c = x then Some (if xs = [] then After else Lit xs, stack) else None)"

fun run :: "jstate \<Rightarrow> string \<Rightarrow> jstate option" where
  "run st [] = Some st"
| "run st (c # cs) = (case step st c of None \<Rightarrow> None | Some st' \<Rightarrow> run st' cs)"

fun final_mode :: "jmode \<Rightarrow> bool" where
  "final_mode After = True"
| "final_mode (Num m) = num_final m"
| "final_mode _ = False"

text \<open>\<open>JSON-text = ws value ws\<close>\<close>

definition json_valid :: "string \<Rightarrow> bool" where
  "json_valid s =
     (case run (Value, []) s of
        Some (m, []) \<Rightarrow> final_mode m
      | _ \<Rightarrow> False)"

text \<open>
  The characters that cannot stand for themselves inside a JSON string: the double quote,
  the backslash and the control characters.
\<close>

definition json_problematic :: "char \<Rightarrow> bool" where
  "json_problematic c = (c = CHR 0x22 \<or> c = CHR 0x5C \<or> (of_char c :: nat) < 0x20)"

fun is_finite :: "double \<Rightarrow> bool" where
  "is_finite (Finite s m e) = True"
| "is_finite _ = False"

text \<open>
  A record that \<open>WriteProfile\<close> turns into JSON: the name needs no escaping beyond the
  replacement of double quotes, the start is a finite number, and the thread id prints as a
  JSON number.
\<close>

definition json_safe :: "(thread_id \<Rightarrow> string) \<Rightarrow> ProfileResult \<Rightarrow> bool" where
  "json_safe tidtext result =
     (list_all (\<lambda>c. json_problematic c \<longrightarrow> c = CHR 0x22) (ProfileResult.Name result) \<and>
      is_finite (Start result) \<and>
      json_number (tidtext (ThreadID result)))"

text \<open>
  Fixed notation with exactly three digits after the decimal point: an optional minus sign,
  at least one digit, the point, three digits.
\<close>

definition fixed3 :: "string \<Rightarrow> bool" where
  "fixed3 s =
     (let body = (case s of [] \<Rightarrow> [] | c # cs \<Rightarrow> if c = CHR ''-'' then cs else s);
          n = length body
      in 5 \<le> n \<and> list_all is_digit (take (n - 4) body) \<and> body ! (n - 4) = CHR ''.'' \<and>
         list_all is_digit (drop (n - 3) body))"

text \<open>A decimal integer: an optional minus sign and digits only.\<close>

definition decimal_integer :: "string \<Rightarrow> bool" where
  "decimal_integer s =
     (let body = (case s of [] \<Rightarrow> [] | c # cs \<Rightarrow> if c = CHR ''-'' then cs else s)
      in body \<noteq> [] \<and> list_all is_digit body)"

text \<open>The constant parts of the text of a record, after its leading comma.\<close>

definition seg_a :: string where
  \<open>seg_a = ''{"cat":"function","dur":''\<close>

definition seg_b :: string where
  \<open>seg_b = '',"name":"''\<close>

definition seg_c :: string where
  \<open>seg_c = ''","ph":"X","pid":0,"tid":''\<close>

definition seg_d :: string where
  \<open>seg_d = '',"ts":''\<close>

text \<open>
  Fixed inputs: records with a plain name, with double quotes in the name, with an infinite
  start and with a backslash as name, and the world in which \<open>BeginSession\<close> has opened a
  session.
\<close>

definition sample :: ProfileResult where
  "sample =
     \<lparr>ProfileResult.Name = ''Load'', Start = Finite False 5 (- 1), ElapsedTime = 7, ThreadID = 1\<rparr>"

definition quoted_sample :: ProfileResult where
  \<open>quoted_sample =
     \<lparr>ProfileResult.Name = ''say "hi"'', Start = Finite False 1234567 (- 3), ElapsedTime = 1500,
      ThreadID = 42\<rparr>\<close>

definition infinite_sample :: ProfileResult where
  "infinite_sample =
     \<lparr>ProfileResult.Name = ''Load'', Start = Infinite False, ElapsedTime = 7, ThreadID = 1\<rparr>"

definition backslash_sample :: ProfileResult where
  "backslash_sample =
     \<lparr>ProfileResult.Name = [CHR 0x5C], Start = Finite False 5 (- 1), ElapsedTime = 7, ThreadID = 1\<rparr>"

definition open_world :: world where
  "open_world = BeginSession True ''App'' ''/trace.json'' (Instrumentor_init Map.empty)"

section \<open>What the operations keep\<close>

lemma consistent_init: "consistent (Instrumentor_init fs)"
  by (simp add: consistent_def Instrumentor_init_def)

lemma consistent_InternalEndSession: "consistent w \<Longrightarrow> consistent (InternalEndSession w)"
  by (auto simp: consistent_def InternalEndSession_def WriteFooter_def stream_write_def
      stream_close_def split: option.splits)

lemma InternalEndSession_closed:
  "consistent w \<Longrightarrow> m_CurrentSession (InternalEndSession w) = None \<and>
     target (m_OutputStream (InternalEndSession w)) = None"
  by (auto simp: consistent_def InternalEndSession_def WriteFooter_def stream_write_def
      stream_close_def split: option.splits)

lemma InternalEndSession_open:
  "consistent w \<Longrightarrow> m_CurrentSession w = Some old \<Longrightarrow> target (m_OutputStream w) = Some p \<Longrightarrow>
   InternalEndSession w =
     w\<lparr>m_CurrentSession := None,
       m_OutputStream := (m_OutputStream w)\<lparr>target := None\<rparr>,
       files := (files w)(p \<mapsto> (case files w p of None \<Rightarrow> epilogue | Some c \<Rightarrow> c @ epilogue)),
       trace := trace w @ [Wrote p epilogue, Closed p]\<rparr>"
  by (auto simp: consistent_def InternalEndSession_def WriteFooter_def stream_write_def
      stream_close_def split: option.splits)

lemma InternalEndSession_none: "m_CurrentSession w = None \<Longrightarrow> InternalEndSession w = w"
  by (simp add: InternalEndSession_def)

lemma BeginSession_closed:
  "m_CurrentSession w = None \<Longrightarrow> target (m_OutputStream w) = None \<Longrightarrow>
   BeginSession ok name filepath w =
     (if ok
      then w\<lparr>m_CurrentSession := Some \<lparr>InstrumentationSession.Name = name\<rparr>,
             m_OutputStream := \<lparr>target = Some filepath, failed = False\<rparr>,
             files := (files w)(filepath \<mapsto> prologue),
             trace := trace w @ [Opened filepath, Wrote filepath prologue]\<rparr>
      else w\<lparr>m_OutputStream := (m_OutputStream w)\<lparr>failed := True\<rparr>,
             trace := trace w @ [OpenFailed filepath,
               Log Error (cannot_open_message filepath)]\<rparr>)"
  by (simp add: BeginSession_def stream_open_def is_open_def WriteHeader_def stream_write_def)

lemma BeginSession_open:
  "m_CurrentSession w = Some old \<Longrightarrow>
   BeginSession ok name filepath w =
     BeginSession ok name filepath
       (InternalEndSession
          (w\<lparr>trace := trace w @
             [Log Warning (already_open_message name (InstrumentationSession.Name old))]\<rparr>))"
  by (simp add: BeginSession_def InternalEndSession_def)

lemma consistent_BeginSession: "consistent w \<Longrightarrow> consistent (BeginSession ok name filepath w)"
proof (cases "m_CurrentSession w")
  case None
  assume c: "consistent w"
  with None have "target (m_OutputStream w) = None" by (simp add: consistent_def)
  with None c show ?thesis by (simp add: BeginSession_closed consistent_def)
next
  case (Some old)
  assume c: "consistent w"
  let ?w1 = "InternalEndSession (w\<lparr>trace := trace w @
             [Log Warning (already_open_message name (InstrumentationSession.Name old))]\<rparr>)"
  from c have c1: "consistent (w\<lparr>trace := trace w @
             [Log Warning (already_open_message name (InstrumentationSession.Name old))]\<rparr>)" by (auto simp: consistent_def)
  have "m_CurrentSession ?w1 = None" "target (m_OutputStream ?w1) = None" "consistent ?w1"
    using InternalEndSession_closed[OF c1] consistent_InternalEndSession[OF c1] by simp_all
  then show ?thesis
    by (simp add: BeginSession_open[OF Some] BeginSession_closed consistent_def)
qed

lemma consistent_WriteProfile: "consistent w \<Longrightarrow> consistent (WriteProfile tidtext r w)"
  by (auto simp: consistent_def WriteProfile_def stream_write_def split: option.splits)

lemma consistent_do_call: "consistent w \<Longrightarrow> consistent (do_call tidtext c w)"
  by (cases c) (simp_all add: consistent_BeginSession consistent_WriteProfile EndSession_def
      consistent_InternalEndSession)

lemma consistent_do_calls: "consistent w \<Longrightarrow> consistent (do_calls tidtext cs w)"
  by (induction cs arbitrary: w) (simp_all add: consistent_do_call)


lemma closed_stays_closed:
  "consistent w \<Longrightarrow> m_CurrentSession w = None \<Longrightarrow> list_all opens_nothing cs \<Longrightarrow>
   m_CurrentSession (do_calls tidtext cs w) = None \<and> files (do_calls tidtext cs w) = files w"
proof (induction cs arbitrary: w)
  case Nil
  then show ?case by simp
next
  case (Cons c cs)
  have t: "target (m_OutputStream w) = None" using Cons.prems by (simp add: consistent_def)
  have "m_CurrentSession (do_call tidtext c w) = None \<and> files (do_call tidtext c w) = files w"
    using Cons.prems t
    by (cases c) (simp_all add: BeginSession_closed EndSession_def InternalEndSession_none
        WriteProfile_def)
  moreover have "consistent (do_call tidtext c w)" using Cons.prems by (simp add: consistent_do_call)
  ultimately show ?case using Cons.IH[of "do_call tidtext c w"] Cons.prems by simp
qed

lemma BeginSession_refused_closed:
  "consistent w \<Longrightarrow> m_CurrentSession (BeginSession False name filepath w) = None"
proof (cases "m_CurrentSession w")
  case None
  assume c: "consistent w"
  with None have "target (m_OutputStream w) = None" by (simp add: consistent_def)
  with None show ?thesis by (simp add: BeginSession_closed)
next
  case (Some old)
  assume c: "consistent w"
  let ?w0 = "w\<lparr>trace := trace w @ [Log Warning (already_open_message name (InstrumentationSession.Name old))]\<rparr>"
  have c1: "consistent ?w0" using c by (auto simp: consistent_def)
  show ?thesis
    using InternalEndSession_closed[OF c1]
    by (simp add: BeginSession_open[OF Some] BeginSession_closed)
qed

lemma BeginSession_refused_last:
  "consistent w \<Longrightarrow> last (trace (BeginSession False name filepath w)) = Log Error (cannot_open_message filepath)"
proof (cases "m_CurrentSession w")
  case None
  assume c: "consistent w"
  with None have "target (m_OutputStream w) = None" by (simp add: consistent_def)
  with None show ?thesis by (simp add: BeginSession_closed)
next
  case (Some old)
  assume c: "consistent w"
  let ?w0 = "w\<lparr>trace := trace w @ [Log Warning (already_open_message name (InstrumentationSession.Name old))]\<rparr>"
  have c1: "consistent ?w0" using c by (auto simp: consistent_def)
  show ?thesis
    using InternalEndSession_closed[OF c1]
    by (simp add: BeginSession_open[OF Some] BeginSession_closed)
qed

lemmas sink_defs = BeginSession_def InternalEndSession_def EndSession_def WriteHeader_def
  WriteFooter_def stream_open_def stream_write_def stream_close_def is_open_def WriteProfile_def

lemma open_world_eq:
  "open_world =
     \<lparr>m_CurrentSession = Some \<lparr>InstrumentationSession.Name = ''App''\<rparr>,
      m_OutputStream = \<lparr>target = Some ''/trace.json'', failed = False\<rparr>,
      files = [''/trace.json'' \<mapsto> prologue],
      trace = [Opened ''/trace.json'', Wrote ''/trace.json'' prologue]\<rparr>"
  by (simp add: open_world_def Instrumentor_init_def BeginSession_closed)

lemma explicit_stops_length:
  "length (snd (explicit_stops stops t)) = length stops"
  by (induction stops t rule: explicit_stops.induct) (simp_all add: Stop_def case_prod_beta)

lemma explicit_stops_stopped:
  "m_Stopped (fst (explicit_stops stops t)) = (stops \<noteq> [] \<or> m_Stopped t)"
  by (induction stops t rule: explicit_stops.induct) (simp_all add: Stop_def case_prod_beta)

lemma div_1000_diff:
  fixes n s :: int
  shows "(n - s) div 1000 \<le> n div 1000 - s div 1000 \<and>
         n div 1000 - s div 1000 \<le> (n - s) div 1000 + 1"
proof -
  define a b c where "a = n div 1000" and "b = s div 1000" and "c = (n - s) div 1000"
  define r1 r2 r3 where "r1 = n mod 1000" and "r2 = s mod 1000" and "r3 = (n - s) mod 1000"
  have n: "n = 1000 * a + r1" and s: "s = 1000 * b + r2" and d: "n - s = 1000 * c + r3"
    by (simp_all add: a_def b_def c_def r1_def r2_def r3_def)
  have r: "0 \<le> r1" "r1 < 1000" "0 \<le> r2" "r2 < 1000" "0 \<le> r3" "r3 < 1000"
    by (simp_all add: r1_def r2_def r3_def)
  define k where "k = a - b - c"
  have "1000 * k = r3 - r1 + r2" using n s d by (simp add: k_def algebra_simps)
  then have "- 1000 < 1000 * k" and "1000 * k < 2000" using r by simp_all
  then have "0 \<le> k" and "k \<le> 1" by simp_all
  then show ?thesis unfolding k_def a_def b_def c_def by simp
qed

lemma to_microseconds_diff:
  assumes "0 \<le> s" "s \<le> n"
  shows "to_microseconds (n - s) \<le> to_microseconds n - to_microseconds s \<and>
         to_microseconds n - to_microseconds s \<le> to_microseconds (n - s) + 1"
  using assms div_1000_diff[of n s] by (simp add: to_microseconds_def)

section \<open>Numbers and JSON\<close>

lemma digit_char_is_digit: "d < 10 \<Longrightarrow> is_digit (digit_char d)"
  unfolding digit_char_def is_digit_def by (rule nth_mem) simp

lemma digit_char_0: "digit_char 0 = CHR ''0''"
  by (simp add: digit_char_def)

lemma digit_char_19: "0 < d \<Longrightarrow> d < 10 \<Longrightarrow> is_digit19 (digit_char d)"
proof -
  assume "0 < d" "d < 10"
  then obtain k where d: "d = Suc k" and k: "k < 9" by (cases d) auto
  have "''123456789'' ! k \<in> set ''123456789''" using k by (intro nth_mem) simp
  then show ?thesis by (simp add: d digit_char_def is_digit19_def)
qed

lemma is_digit19_is_digit: "is_digit19 c \<Longrightarrow> is_digit c"
  by (auto simp: is_digit19_def is_digit_def)

lemma is_digit_cases:
  "is_digit c \<Longrightarrow> c = CHR ''0'' \<or> is_digit19 c"
  by (auto simp: is_digit19_def is_digit_def)

lemma show_nat_digits: "list_all is_digit (show_nat n)"
proof (induction n rule: show_nat.induct)
  case (1 n)
  show ?case
  proof (cases "n < 10")
    case True
    then show ?thesis by (subst show_nat.simps) (simp add: digit_char_is_digit)
  next
    case False
    then show ?thesis using 1 by (subst show_nat.simps) (simp add: digit_char_is_digit)
  qed
qed

lemma show_nat_nonempty: "show_nat n \<noteq> []"
  by (subst show_nat.simps) simp

lemma num_run_append:
  "num_run m (xs @ ys) = (case num_run m xs of None \<Rightarrow> None | Some m' \<Rightarrow> num_run m' ys)"
  by (induction xs arbitrary: m) (simp_all split: option.splits)

lemma num_step_digit19:
  "is_digit19 c \<Longrightarrow> num_step NStart c = Some NInt \<and> num_step NMinus c = Some NInt"
  by (auto simp: is_digit19_def)

lemma num_step_digit_int: "is_digit c \<Longrightarrow> num_step NInt c = Some NInt"
  by simp

lemma num_run_show_nat:
  "m = NStart \<or> m = NMinus \<Longrightarrow> num_run m (show_nat n) = Some (if n = 0 then NZero else NInt)"
proof (induction n rule: show_nat.induct)
  case (1 n)
  show ?case
  proof (cases "n < 10")
    case True
    show ?thesis
    proof (cases "n = 0")
      case True
      then show ?thesis using 1(2) by (subst show_nat.simps) (auto simp: digit_char_0)
    next
      case False
      then have "is_digit19 (digit_char n)" using True by (simp add: digit_char_19)
      then show ?thesis using 1(2) False True
        by (subst show_nat.simps) (auto simp del: num_step.simps simp add: num_step_digit19)
    qed
  next
    case False
    then have "n div 10 \<noteq> 0" by simp
    then have "num_run m (show_nat (n div 10)) = Some NInt" using 1 False by simp
    then show ?thesis using False
      by (subst show_nat.simps) (simp add: num_run_append digit_char_is_digit)
  qed
qed

lemma json_number_show_int: "json_number (show_int i)"
  by (simp add: json_number_def show_int_def num_run_show_nat)

lemma not_digit:
  "\<not> is_digit (CHR ''.'')" "\<not> is_digit (CHR '','')" "\<not> is_digit (CHR ''}'')" "\<not> is_digit (CHR ''-'')"
  by (simp_all add: is_digit_def)

lemma num_run_show_fixed3: "num_run NStart (show_fixed3 (Finite s m e)) = Some NFrac"
  by (simp add: Let_def num_run_append num_run_show_nat digit_char_is_digit not_digit)

lemma json_number_show_fixed3: "is_finite d \<Longrightarrow> json_number (show_fixed3 d)"
  by (cases d) (simp_all add: json_number_def num_run_show_fixed3 del: show_fixed3.simps)

lemma run_append:
  "run st (xs @ ys) = (case run st xs of None \<Rightarrow> None | Some st' \<Rightarrow> run st' ys)"
  by (induction xs arbitrary: st) (simp_all split: option.splits)

lemma run_Num: "num_run m t = Some m' \<Longrightarrow> run (Num m, stack) t = Some (Num m', stack)"
  by (induction t arbitrary: m) (auto split: option.splits)

lemma num_step_NStart_cases:
  "num_step NStart c = Some m \<Longrightarrow>
   (c = CHR ''-'' \<and> m = NMinus) \<or> (c = CHR ''0'' \<and> m = NZero) \<or> (is_digit19 c \<and> m = NInt)"
  by (simp split: if_splits)

lemma step_Value_digit19:
  assumes "is_digit19 c"
  shows "step (Value, stack) c = Some (Num NInt, stack)"
proof -
  have "c \<in> set ''123456789''" using assms by (simp add: is_digit19_def)
  then consider "c = CHR ''1''" | "c = CHR ''2''" | "c = CHR ''3''" | "c = CHR ''4''"
    | "c = CHR ''5''" | "c = CHR ''6''" | "c = CHR ''7''" | "c = CHR ''8''" | "c = CHR ''9''"
    by auto
  then show ?thesis
    by cases (simp_all add: is_ws_def value_step_def is_digit19_def)
qed

lemma step_Value_number:
  assumes "num_step NStart c = Some m"
  shows "step (Value, stack) c = Some (Num m, stack)"
proof -
  consider "c = CHR ''-''" "m = NMinus" | "c = CHR ''0''" "m = NZero" | "is_digit19 c" "m = NInt"
    using num_step_NStart_cases[OF assms] by blast
  then show ?thesis
  proof cases
    case 1
    then show ?thesis by (simp add: is_ws_def value_step_def)
  next
    case 2
    then show ?thesis by (simp add: is_ws_def value_step_def)
  next
    case 3
    then show ?thesis by (simp only: step_Value_digit19)
  qed
qed

lemma run_Value_num_run:
  assumes "num_run NStart t = Some m" and "t \<noteq> []"
  shows "run (Value, stack) t = Some (Num m, stack)"
proof -
  obtain c cs where t: "t = c # cs" using assms(2) by (cases t) auto
  obtain m1 where m1: "num_step NStart c = Some m1" "num_run m1 cs = Some m"
    using assms(1) unfolding t by (auto split: option.splits)
  show ?thesis
    unfolding t using step_Value_number[OF m1(1)] run_Num[OF m1(2)] by simp
qed

lemma run_Value_number:
  assumes "json_number t"
  shows "\<exists>m. num_final m \<and> run (Value, stack) t = Some (Num m, stack)"
proof -
  from assms obtain m where m: "num_run NStart t = Some m" "num_final m"
    by (auto simp: json_number_def split: option.splits)
  have "t \<noteq> []" using m by auto
  then show ?thesis using run_Value_num_run[OF m(1)] m(2) by blast
qed

lemma num_step_end:
  "num_step m (CHR '','') = None \<and> num_step m (CHR ''}'') = None"
  by (cases m) (simp_all add: is_digit_def is_digit19_def)

lemma step_Num_comma:
  "num_final m \<Longrightarrow> step (Num m, InObject # stack) (CHR '','') = Some (ObjectKey, InObject # stack)"
  by (simp add: num_step_end after_step_def is_ws_def)

lemma step_Num_brace:
  "num_final m \<Longrightarrow> step (Num m, InObject # stack) (CHR ''}'') = Some (After, stack)"
  by (simp add: num_step_end after_step_def is_ws_def)

lemma run_Str_plain:
  "\<forall>c\<in>set xs. \<not> json_problematic c \<Longrightarrow> run (Str k, stack) xs = Some (Str k, stack)"
  by (induction xs) (auto simp: json_problematic_def)

lemma replace_quotes_plain:
  assumes "\<forall>c\<in>set name. json_problematic c \<longrightarrow> c = CHR 0x22"
  shows "\<forall>c\<in>set (replace_quotes name). \<not> json_problematic c"
proof
  fix c
  assume "c \<in> set (replace_quotes name)"
  then obtain d where d: "d \<in> set name" "c = (if d = CHR 0x22 then CHR 0x27 else d)"
    by (auto simp: replace_quotes_def)
  show "\<not> json_problematic c"
  proof (cases "d = CHR 0x22")
    case True
    then have "c = CHR 0x27" using d(2) by simp
    then show ?thesis by (simp add: json_problematic_def)
  next
    case False
    then have "\<not> json_problematic d" using assms d(1) by blast
    moreover have "c = d" using d(2) False by simp
    ultimately show ?thesis by simp
  qed
qed

lemma run_show_int:
  "run (Value, stack) (show_int i) = Some (Num (if i = 0 then NZero else NInt), stack)"
proof -
  have "num_run NStart (show_int i) = Some (if i = 0 then NZero else NInt)"
    by (simp add: show_int_def num_run_show_nat)
  moreover have "show_int i \<noteq> []" by (simp add: show_int_def show_nat_nonempty)
  ultimately show ?thesis by (rule run_Value_num_run)
qed

lemma profile_json_segments:
  "profile_json tidtext r =
     CHR '','' # seg_a @ show_int (ElapsedTime r) @ seg_b @ replace_quotes (ProfileResult.Name r) @
     seg_c @ tidtext (ThreadID r) @ seg_d @ show_fixed3 (Start r) @ ''}''"
  by (simp add: profile_json_def seg_a_def seg_b_def seg_c_def seg_d_def)

lemma run_seg_a: "run (Value, stack) seg_a = Some (Value, InObject # stack)"
  by (simp add: seg_a_def is_ws_def value_step_def after_step_def)

lemma run_seg_b: "num_final m \<Longrightarrow> run (Num m, InObject # stack) seg_b = Some (Str False, InObject # stack)"
  by (simp add: seg_b_def is_ws_def value_step_def after_step_def num_step_end)

lemma run_seg_c: "run (Str False, InObject # stack) seg_c = Some (Value, InObject # stack)"
  by (simp add: seg_c_def is_ws_def value_step_def after_step_def is_digit_def is_digit19_def)

lemma run_seg_d: "num_final m \<Longrightarrow> run (Num m, InObject # stack) seg_d = Some (Value, InObject # stack)"
  by (simp add: seg_d_def is_ws_def value_step_def after_step_def num_step_end)

lemma run_then: "run st xs = Some st' \<Longrightarrow> run st (xs @ ys) = run st' ys"
  by (simp add: run_append)

lemma num_final_shown: "num_final (if i = (0::int) then NZero else NInt)"
  by simp

lemma json_safe_name:
  "json_safe tidtext r \<Longrightarrow> \<forall>c\<in>set (ProfileResult.Name r). json_problematic c \<longrightarrow> c = CHR 0x22"
  unfolding json_safe_def list_all_iff by (elim conjE)

lemma json_safe_start: "json_safe tidtext r \<Longrightarrow> is_finite (Start r)"
  unfolding json_safe_def by (elim conjE)

lemma json_safe_tid: "json_safe tidtext r \<Longrightarrow> json_number (tidtext (ThreadID r))"
  unfolding json_safe_def by (elim conjE)

lemma run_profile_object:
  assumes "json_safe tidtext r"
  shows "run (Value, stack) (tl (profile_json tidtext r)) = Some (After, stack)"
proof -
  let ?S = "InObject # stack"
  let ?m1 = "if ElapsedTime r = 0 then NZero else NInt"
  have 1: "run (Value, ?S) (show_int (ElapsedTime r)) = Some (Num ?m1, ?S)"
    by (rule run_show_int)
  have 2: "run (Str False, ?S) (replace_quotes (ProfileResult.Name r)) = Some (Str False, ?S)"
    by (intro run_Str_plain replace_quotes_plain json_safe_name[OF assms])
  obtain m3 where 3: "num_final m3" "run (Value, ?S) (tidtext (ThreadID r)) = Some (Num m3, ?S)"
    using run_Value_number[OF json_safe_tid[OF assms], of ?S] by blast
  obtain m4 where 4: "num_final m4" "run (Value, ?S) (show_fixed3 (Start r)) = Some (Num m4, ?S)"
    using run_Value_number[OF json_number_show_fixed3[OF json_safe_start[OF assms]], of ?S]
    by blast
  let ?R8 = "''}''"
  let ?R7 = "show_fixed3 (Start r) @ ?R8"
  let ?R6 = "seg_d @ ?R7"
  let ?R5 = "tidtext (ThreadID r) @ ?R6"
  let ?R4 = "seg_c @ ?R5"
  let ?R3 = "replace_quotes (ProfileResult.Name r) @ ?R4"
  let ?R2 = "seg_b @ ?R3"
  let ?R1 = "show_int (ElapsedTime r) @ ?R2"
  have "tl (profile_json tidtext r) = seg_a @ ?R1"
    by (simp only: profile_json_segments list.sel)
  then have "run (Value, stack) (tl (profile_json tidtext r)) = run (Value, stack) (seg_a @ ?R1)"
    by (rule arg_cong)
  also have "\<dots> = run (Value, ?S) ?R1" by (rule run_then[OF run_seg_a])
  also have "\<dots> = run (Num ?m1, ?S) ?R2" by (rule run_then[OF 1])
  also have "\<dots> = run (Str False, ?S) ?R3" by (rule run_then[OF run_seg_b[OF num_final_shown]])
  also have "\<dots> = run (Str False, ?S) ?R4" by (rule run_then[OF 2])
  also have "\<dots> = run (Value, ?S) ?R5" by (rule run_then[OF run_seg_c])
  also have "\<dots> = run (Num m3, ?S) ?R6" by (rule run_then[OF 3(2)])
  also have "\<dots> = run (Value, ?S) ?R7" by (rule run_then[OF run_seg_d[OF 3(1)]])
  also have "\<dots> = run (Num m4, ?S) ?R8" by (rule run_then[OF 4(2)])
  also have "\<dots> = Some (After, stack)" using step_Num_brace[OF 4(1), of stack] by simp
  finally show ?thesis .
qed

lemma run_profile_json:
  assumes "json_safe tidtext r"
  shows "run (After, InArray # stack) (profile_json tidtext r) = Some (After, InArray # stack)"
proof -
  have e: "profile_json tidtext r = CHR '','' # tl (profile_json tidtext r)"
    by (simp add: profile_json_def)
  show ?thesis
    by (subst e) (simp add: after_step_def is_ws_def run_profile_object[OF assms])
qed

lemma run_records:
  "list_all (json_safe tidtext) rs \<Longrightarrow>
   run (After, InArray # stack) (concat (map (profile_json tidtext) rs)) = Some (After, InArray # stack)"
  by (induction rs) (simp_all add: run_append run_profile_json)

lemma run_prologue: "run (Value, []) prologue = Some (After, [InArray, InObject])"
  by (simp add: prologue_def is_ws_def value_step_def after_step_def)

lemma run_epilogue: "run (After, [InArray, InObject]) epilogue = Some (After, [])"
  by (simp add: epilogue_def is_ws_def after_step_def)

lemma json_valid_file:
  "list_all (json_safe tidtext) rs \<Longrightarrow>
   json_valid (prologue @ concat (map (profile_json tidtext) rs) @ epilogue)"
  by (simp add: json_valid_def run_append run_prologue run_records run_epilogue)

lemma show_nat_hd: "\<exists>c cs. show_nat n = c # cs \<and> is_digit c"
  using show_nat_digits[of n] show_nat_nonempty[of n] by (cases "show_nat n") auto

lemma body_unsigned:
  "list_all is_digit s \<Longrightarrow>
   (case s of [] \<Rightarrow> [] | c # cs \<Rightarrow> if c = CHR ''-'' then cs else s) = s"
  by (cases s) (auto simp: not_digit)

lemma fixed3_digits:
  assumes "list_all is_digit ip" and "ip \<noteq> []" and "is_digit d1" and "is_digit d2" and "is_digit d3"
  shows "fixed3 (ip @ CHR ''.'' # [d1, d2, d3])" and "fixed3 (CHR ''-'' # ip @ CHR ''.'' # [d1, d2, d3])"
proof -
  obtain c cs where ip: "ip = c # cs" using assms(2) by (cases ip) auto
  have c: "c \<noteq> CHR ''-''" using assms(1) ip by (auto simp: not_digit)
  have n: "length (ip @ CHR ''.'' # [d1, d2, d3]) - 4 = length ip" by simp
  have b: "fixed3 (ip @ CHR ''.'' # [d1, d2, d3]) =
           (let body = ip @ CHR ''.'' # [d1, d2, d3]; n = length body
            in 5 \<le> n \<and> list_all is_digit (take (n - 4) body) \<and> body ! (n - 4) = CHR ''.'' \<and>
               list_all is_digit (drop (n - 3) body))"
    unfolding fixed3_def using c by (simp add: ip)
  have p: "(let body = ip @ CHR ''.'' # [d1, d2, d3]; n = length body
            in 5 \<le> n \<and> list_all is_digit (take (n - 4) body) \<and> body ! (n - 4) = CHR ''.'' \<and>
               list_all is_digit (drop (n - 3) body))"
    using assms by (simp add: Let_def ip nth_append)
  show "fixed3 (ip @ CHR ''.'' # [d1, d2, d3])" using b p by simp
  have "fixed3 (CHR ''-'' # ip @ CHR ''.'' # [d1, d2, d3]) =
           (let body = ip @ CHR ''.'' # [d1, d2, d3]; n = length body
            in 5 \<le> n \<and> list_all is_digit (take (n - 4) body) \<and> body ! (n - 4) = CHR ''.'' \<and>
               list_all is_digit (drop (n - 3) body))"
    unfolding fixed3_def by simp
  then show "fixed3 (CHR ''-'' # ip @ CHR ''.'' # [d1, d2, d3])" using p by simp
qed

lemma fixed3_show_fixed3: "is_finite d \<Longrightarrow> fixed3 (show_fixed3 d)"
proof (cases d)
  case (Finite s m e)
  show ?thesis
    using fixed3_digits[OF show_nat_digits show_nat_nonempty,
        of "digit_char (thousandths m e div 100 mod 10)" "digit_char (thousandths m e div 10 mod 10)"
           "digit_char (thousandths m e mod 10)" "thousandths m e div 1000"]
    by (simp add: Finite Let_def digit_char_is_digit)
qed simp_all

lemma digits_not_fixed3:
  assumes "list_all is_digit s"
  shows "\<not> fixed3 s" and "\<not> fixed3 (CHR ''-'' # s)"
proof -
  have k: "\<not> (5 \<le> length s \<and> s ! (length s - 4) = CHR ''.'')"
  proof
    assume a: "5 \<le> length s \<and> s ! (length s - 4) = CHR ''.''"
    then have "length s - 4 < length s" by arith
    then have "is_digit (s ! (length s - 4))" using assms by (simp add: list_all_length)
    then show False using a by (simp add: not_digit)
  qed
  show "\<not> fixed3 s" using k body_unsigned[OF assms] by (auto simp: fixed3_def Let_def)
  show "\<not> fixed3 (CHR ''-'' # s)" using k by (auto simp: fixed3_def Let_def)
qed

lemma show_int_not_fixed3: "\<not> fixed3 (show_int i)"
  by (simp add: show_int_def digits_not_fixed3 show_nat_digits)

lemma show_int_decimal: "decimal_integer (show_int i)"
  using body_unsigned[OF show_nat_digits]
  by (simp add: show_int_def decimal_integer_def show_nat_digits show_nat_nonempty)

lemma fp_round_finite: "is_finite (fp_round s num den)"
  by (simp add: fp_round_def Let_def case_prod_beta)

lemma to_FloatingPointMicroseconds_finite: "is_finite (to_FloatingPointMicroseconds t)"
proof -
  have "\<And>d. is_finite d \<Longrightarrow> is_finite (double_div_1000 d)"
    subgoal for d by (cases d) (simp_all add: fp_round_finite)
    done
  then show ?thesis by (simp add: to_FloatingPointMicroseconds_def double_of_int_def fp_round_finite)
qed

lemma do_calls_append:
  "do_calls tidtext (xs @ ys) w = do_calls tidtext ys (do_calls tidtext xs w)"
  by (induction xs arbitrary: w) simp_all

lemma WriteProfile_open:
  assumes "consistent w" and "m_CurrentSession w = Some x" and "target (m_OutputStream w) = Some p"
    and "files w p = Some c"
  shows "WriteProfile tidtext r w =
           w\<lparr>files := (files w)(p \<mapsto> c @ profile_json tidtext r),
             trace := trace w @ [Wrote p (profile_json tidtext r)]\<rparr>"
  using assms by (auto simp: WriteProfile_def stream_write_def consistent_def Let_def)

lemma writes_append:
  assumes "consistent w" and "m_CurrentSession w = Some x" and "target (m_OutputStream w) = Some p"
    and "files w p = Some c"
  shows "consistent (do_calls tidtext (map Write rs) w) \<and>
         m_CurrentSession (do_calls tidtext (map Write rs) w) = Some x \<and>
         target (m_OutputStream (do_calls tidtext (map Write rs) w)) = Some p \<and>
         files (do_calls tidtext (map Write rs) w) p =
           Some (c @ concat (map (profile_json tidtext) rs))"
  using assms
proof (induction rs arbitrary: w c)
  case Nil
  then show ?case by simp
next
  case (Cons r rs)
  let ?w = "WriteProfile tidtext r w"
  have e: "?w = w\<lparr>files := (files w)(p \<mapsto> c @ profile_json tidtext r),
             trace := trace w @ [Wrote p (profile_json tidtext r)]\<rparr>"
    using Cons.prems by (rule WriteProfile_open)
  have "consistent ?w" using Cons.prems(1) by (rule consistent_WriteProfile)
  moreover have "m_CurrentSession ?w = Some x" "target (m_OutputStream ?w) = Some p"
    "files ?w p = Some (c @ profile_json tidtext r)"
    using Cons.prems by (simp_all add: e)
  ultimately show ?case
    using Cons.IH[of ?w "c @ profile_json tidtext r"] by (simp add: e)
qed

lemma BeginSession_granted:
  assumes "consistent w"
  shows "m_CurrentSession (BeginSession True name filepath w) = Some \<lparr>InstrumentationSession.Name = name\<rparr> \<and>
         target (m_OutputStream (BeginSession True name filepath w)) = Some filepath \<and>
         files (BeginSession True name filepath w) filepath = Some prologue"
proof (cases "m_CurrentSession w")
  case None
  then have "target (m_OutputStream w) = None" using assms by (simp add: consistent_def)
  with None show ?thesis by (simp add: BeginSession_closed)
next
  case (Some old)
  let ?w0 = "w\<lparr>trace := trace w @ [Log Warning (already_open_message name (InstrumentationSession.Name old))]\<rparr>"
  have c1: "consistent ?w0" using assms by (auto simp: consistent_def)
  show ?thesis
    using InternalEndSession_closed[OF c1]
    by (simp add: BeginSession_open[OF Some] BeginSession_closed)
qed

lemma session_file:
  assumes "consistent w"
  shows "files (do_calls tidtext (Begin True name filepath # map Write rs @ [End]) w) filepath =
           Some (prologue @ concat (map (profile_json tidtext) rs) @ epilogue)"
proof -
  let ?w1 = "BeginSession True name filepath w"
  let ?w2 = "do_calls tidtext (map Write rs) ?w1"
  have c1: "consistent ?w1" using assms by (rule consistent_BeginSession)
  note b = BeginSession_granted[OF assms, of name filepath]
  have w2: "consistent ?w2 \<and>
         m_CurrentSession ?w2 = Some \<lparr>InstrumentationSession.Name = name\<rparr> \<and>
         target (m_OutputStream ?w2) = Some filepath \<and>
         files ?w2 filepath = Some (prologue @ concat (map (profile_json tidtext) rs))"
    using b by (intro writes_append[OF c1]) simp_all
  have "InternalEndSession ?w2 = ?w2\<lparr>m_CurrentSession := None,
       m_OutputStream := (m_OutputStream ?w2)\<lparr>target := None\<rparr>,
       files := (files ?w2)(filepath \<mapsto> (case files ?w2 filepath of None \<Rightarrow> epilogue | Some c \<Rightarrow> c @ epilogue)),
       trace := trace ?w2 @ [Wrote filepath epilogue, Closed filepath]\<rparr>"
    using w2 by (intro InternalEndSession_open) simp_all
  then have "files (EndSession ?w2) filepath =
      Some (prologue @ concat (map (profile_json tidtext) rs) @ epilogue)"
    using w2 by (simp add: EndSession_def)
  then show ?thesis by (simp add: do_calls_append)
qed

lemmas eval_defs = sample_def quoted_sample_def infinite_sample_def backslash_sample_def
  profile_json_def replace_quotes_def show_int_def show_nat.simps digit_char_def thousandths_def
  Let_def prologue_def epilogue_def

lemmas json_eval = json_valid_def json_number_def is_ws_def value_step_def after_step_def
  is_digit_def is_digit19_def is_hex_def json_problematic_def

lemma session_file_replaced:
  assumes "consistent w" and "\<not> ok \<or> filepath' \<noteq> filepath"
  shows "files (do_calls tidtext (Begin True name filepath # map Write rs @ [Begin ok name' filepath']) w)
           filepath =
           Some (prologue @ concat (map (profile_json tidtext) rs) @ epilogue)"
proof -
  let ?w1 = "BeginSession True name filepath w"
  let ?w2 = "do_calls tidtext (map Write rs) ?w1"
  let ?x = "\<lparr>InstrumentationSession.Name = name\<rparr>"
  have c1: "consistent ?w1" using assms(1) by (rule consistent_BeginSession)
  note b = BeginSession_granted[OF assms(1), of name filepath]
  have w2: "consistent ?w2 \<and> m_CurrentSession ?w2 = Some ?x \<and>
         target (m_OutputStream ?w2) = Some filepath \<and>
         files ?w2 filepath = Some (prologue @ concat (map (profile_json tidtext) rs))"
    using b by (intro writes_append[OF c1]) simp_all
  let ?w0 = "?w2\<lparr>trace := trace ?w2 @ [Log Warning (already_open_message name' name)]\<rparr>"
  have c0: "consistent ?w0" using w2 by (auto simp: consistent_def)
  have e: "InternalEndSession ?w0 = ?w0\<lparr>m_CurrentSession := None,
       m_OutputStream := (m_OutputStream ?w0)\<lparr>target := None\<rparr>,
       files := (files ?w0)(filepath \<mapsto> (case files ?w0 filepath of None \<Rightarrow> epilogue | Some c \<Rightarrow> c @ epilogue)),
       trace := trace ?w0 @ [Wrote filepath epilogue, Closed filepath]\<rparr>"
    using w2 by (intro InternalEndSession_open[OF c0, of ?x]) simp_all
  have 1: "BeginSession ok name' filepath' ?w2 = BeginSession ok name' filepath' (InternalEndSession ?w0)"
    using BeginSession_open[of ?w2 ?x ok name' filepath'] w2 by simp
  have "files (BeginSession ok name' filepath' ?w2) filepath =
      Some (prologue @ concat (map (profile_json tidtext) rs) @ epilogue)"
    unfolding 1 using w2 assms(2) by (auto simp: e BeginSession_closed)
  then show ?thesis by (simp add: do_calls_append)
qed

section \<open>Rounding to a double\<close>

lemma pow2_powr: "pow2 e = 2 powr (real_of_int e)"
  by (auto simp: pow2_def powr_realpow[symmetric] powr_minus field_simps)

lemma pow2_pos: "0 < pow2 e"
  by (simp add: pow2_powr)

lemma pow2_add: "pow2 (a + b) = pow2 a * pow2 b"
  by (simp add: pow2_powr powr_add)

lemma pow2_nat: "pow2 (int n) = 2 ^ n"
  by (simp add: pow2_def)

lemma bit_length_bounds:
  "0 < n \<Longrightarrow> 2 ^ (bit_length n - 1) \<le> n \<and> n < 2 ^ bit_length n"
proof (induction n rule: bit_length.induct)
  case (1 n)
  show ?case
  proof (cases "n div 2 = 0")
    case True
    then have "n = 1" using 1(2) by auto
    then show ?thesis by (simp add: bit_length.simps)
  next
    case False
    then have ih: "2 ^ (bit_length (n div 2) - 1) \<le> n div 2 \<and> n div 2 < 2 ^ bit_length (n div 2)"
      using 1 by simp
    have b: "bit_length n = Suc (bit_length (n div 2))" using 1(2) by (subst bit_length.simps) simp
    have p: "0 < bit_length (n div 2)" using False by (subst bit_length.simps) simp
    then obtain k where k: "bit_length (n div 2) = Suc k" by (cases "bit_length (n div 2)") auto
    show ?thesis using ih unfolding b k by auto
  qed
qed

lemma scaled_ratio:
  assumes "0 < den" and "scaled num den e = (n, d)"
  shows "0 < d \<and> real n / real d = (real num / real den) / pow2 e"
  using assms by (auto simp: scaled_def pow2_def field_simps split: if_splits)

lemma round_half_even_error:
  fixes n d :: nat
  assumes "0 < d"
  shows "\<bar>real (if d < 2 * (n mod d) \<or> (2 * (n mod d) = d \<and> odd (n div d)) then n div d + 1 else n div d)
          - real n / real d\<bar> \<le> 1 / 2"
proof -
  define q r where "q = n div d" and "r = n mod d"
  have n: "n = q * d + r" by (simp add: q_def r_def)
  have r: "r < d" using assms by (simp add: r_def)
  have x: "real n / real d = real q + real r / real d"
    using assms by (simp add: n field_simps)
  define f where "f = real r / real d"
  have f0: "0 \<le> f" and f1: "f < 1" using r assms by (simp_all add: f_def)
  have x': "real n / real d = real q + f" using x by (simp add: f_def)
  have up: "d \<le> 2 * r \<Longrightarrow> \<bar>real (q + 1) - real n / real d\<bar> \<le> 1 / 2"
  proof -
    assume "d \<le> 2 * r"
    then have "real d \<le> 2 * real r" by (metis of_nat_le_iff of_nat_mult of_nat_numeral)
    then have "1 / 2 \<le> f" using assms by (simp add: f_def field_simps)
    then show ?thesis unfolding x' using f1 by simp
  qed
  have down: "2 * r \<le> d \<Longrightarrow> \<bar>real q - real n / real d\<bar> \<le> 1 / 2"
  proof -
    assume "2 * r \<le> d"
    then have "2 * real r \<le> real d" by (metis of_nat_le_iff of_nat_mult of_nat_numeral)
    then have "f \<le> 1 / 2" using assms by (simp add: f_def field_simps)
    then show ?thesis unfolding x' using f0 by simp
  qed
  show ?thesis
    using up down unfolding q_def[symmetric] r_def[symmetric] by auto
qed

lemma fp_round_error:
  assumes "0 < num" and "0 < den"
  shows "\<exists>m e. fp_round s num den = Finite s m e \<and> 0 < m \<and>
           \<bar>real m * pow2 e - real num / real den\<bar> \<le> (real num / real den) / 2 ^ 53"
proof -
  define x where "x = real num / real den"
  define e0 where "e0 = int (bit_length num) - int (bit_length den) - 53"
  obtain n0 d0 where s0: "scaled num den e0 = (n0, d0)" by (cases "scaled num den e0")
  define e where "e = (if 2 ^ 53 \<le> n0 div d0 then e0 + 1 else e0)"
  obtain n d where s: "scaled num den e = (n, d)" by (cases "scaled num den e")
  define m where "m = (if d < 2 * (n mod d) \<or> (2 * (n mod d) = d \<and> odd (n div d)) then n div d + 1 else n div d)"
  have nz: "(num = 0) = False" using assms(1) by simp
  have f: "fp_round s num den = Finite s m e"
    unfolding fp_round_def
    by (simp only: nz if_False Let_def e0_def[symmetric] s0 prod.case e_def[symmetric] s
        m_def[symmetric])
  have xpos: "0 < x" using assms by (simp add: x_def)
  have r0: "0 < d0" "real n0 / real d0 = x / pow2 e0"
    using scaled_ratio[OF assms(2) s0] by (simp_all add: x_def)
  have r: "0 < d" "real n / real d = x / pow2 e"
    using scaled_ratio[OF assms(2) s] by (simp_all add: x_def)
  have bn: "2 ^ (bit_length num - 1) \<le> num" and bd: "den < 2 ^ bit_length den"
    using bit_length_bounds assms by simp_all
  have bnpos: "0 < bit_length num" using assms(1) by (subst bit_length.simps) simp
  have lo: "pow2 (int (bit_length num) - 1) \<le> real num"
  proof -
    have "int (bit_length num) - 1 = int (bit_length num - 1)" using bnpos by simp
    then have "pow2 (int (bit_length num) - 1) = pow2 (int (bit_length num - 1))"
      by (rule arg_cong)
    also have "\<dots> = 2 ^ (bit_length num - 1)" by (rule pow2_nat)
    also have "\<dots> = real (2 ^ (bit_length num - 1))" by simp
    also have "\<dots> \<le> real num" using bn by (simp only: of_nat_le_iff)
    finally show ?thesis .
  qed
  have hi: "real den < pow2 (int (bit_length den))"
  proof -
    have "real den < real (2 ^ bit_length den)" using bd by (simp only: of_nat_less_iff)
    then show ?thesis by (simp add: pow2_nat)
  qed
  have "pow2 (int (bit_length num) - 1) / pow2 (int (bit_length den)) < real num / real den"
    using pow2_pos lo _ hi
  proof (rule frac_less2)
    show "0 < real den" using assms(2) by simp
  qed
  then have "pow2 (int (bit_length num) - 1) / pow2 (int (bit_length den)) < x"
    by (simp only: x_def)
  moreover have "pow2 (int (bit_length num) - 1) = pow2 52 * pow2 e0 * pow2 (int (bit_length den))"
    unfolding pow2_add[symmetric] e0_def by simp
  ultimately have "pow2 52 * pow2 e0 < x" using pow2_pos[of "int (bit_length den)"] by simp
  then have S0: "pow2 52 < x / pow2 e0" using pow2_pos[of e0] by (simp add: pos_less_divide_eq)
  have S: "2 ^ 52 \<le> x / pow2 e"
  proof (cases "(2::nat) ^ 53 \<le> n0 div d0")
    case True
    then have "real ((2::nat) ^ 53) \<le> real (n0 div d0)" by (simp only: of_nat_le_iff)
    also have "\<dots> \<le> real n0 / real d0" by (rule of_nat_div_le_of_nat)
    finally have "2 ^ 53 \<le> x / pow2 e0" using r0 by simp
    moreover have "pow2 e = pow2 e0 * 2"
    proof -
      have "e = e0 + 1" using True by (simp add: e_def)
      then have "pow2 e = pow2 e0 * pow2 1" by (simp only: pow2_add)
      moreover have "pow2 1 = 2" by (simp add: pow2_def)
      ultimately show ?thesis by simp
    qed
    ultimately show ?thesis by (simp add: field_simps)
  next
    case False
    then have "e = e0" by (simp add: e_def)
    then show ?thesis using S0 by (simp add: pow2_def)
  qed
  have err: "\<bar>real m - x / pow2 e\<bar> \<le> 1 / 2"
    using round_half_even_error[OF r(1), of n] unfolding m_def r(2) .
  have mpos: "0 < m"
  proof -
    have "x / pow2 e - 1 / 2 \<le> real m" using err by linarith
    moreover have "(1::real) \<le> 2 ^ 52" by simp
    ultimately have "0 < real m" using S by linarith
    then show ?thesis by simp
  qed
  have "\<bar>real m * pow2 e - x\<bar> = \<bar>real m - x / pow2 e\<bar> * pow2 e"
  proof -
    have "real m * pow2 e - x = (real m - x / pow2 e) * pow2 e"
      using pow2_pos[of e] by (simp add: field_simps)
    then show ?thesis using pow2_pos[of e] by (simp add: abs_mult)
  qed
  also have "\<dots> \<le> 1 / 2 * pow2 e" using err pow2_pos[of e] by (simp add: mult_right_mono)
  also have "\<dots> \<le> x / 2 ^ 53"
  proof -
    have "2 ^ 52 * pow2 e \<le> x" using S pow2_pos[of e] by (simp add: field_simps)
    then show ?thesis by simp
  qed
  finally show ?thesis using f mpos unfolding x_def by blast
qed

lemma double_div_1000_error:
  assumes "0 < m1"
  shows "\<exists>m e. double_div_1000 (Finite s m1 e1) = Finite s m e \<and>
           \<bar>real m * pow2 e - real m1 * pow2 e1 / 1000\<bar> \<le> (real m1 * pow2 e1 / 1000) / 2 ^ 53"
proof -
  define num :: nat where "num = (if 0 \<le> e1 then m1 * 2 ^ nat e1 else m1)"
  define den :: nat where "den = (if 0 \<le> e1 then 1000 else 1000 * 2 ^ nat (- e1))"
  have pos: "0 < num" "0 < den" using assms by (simp_all add: num_def den_def)
  have eq: "real num / real den = real m1 * pow2 e1 / 1000"
    by (simp add: num_def den_def pow2_def)
  have d: "double_div_1000 (Finite s m1 e1) = fp_round s num den"
    by (simp add: num_def den_def)
  obtain m e where f: "fp_round s num den = Finite s m e"
    "\<bar>real m * pow2 e - real num / real den\<bar> \<le> (real num / real den) / 2 ^ 53"
    using fp_round_error[OF pos, of s] by blast
  have "\<bar>real m * pow2 e - real m1 * pow2 e1 / 1000\<bar> \<le> (real m1 * pow2 e1 / 1000) / 2 ^ 53"
    using f(2) unfolding eq .
  then show ?thesis using d f(1) by (simp only:) blast
qed

lemma to_FloatingPointMicroseconds_error:
  "\<exists>m e. to_FloatingPointMicroseconds t = Finite (t < 0) m e \<and>
          \<bar>real m * pow2 e * 1000 - \<bar>real_of_int t\<bar>\<bar> \<le> \<bar>real_of_int t\<bar> / 2 ^ 51"
proof (cases "t = 0")
  case True
  then show ?thesis
    by (simp add: to_FloatingPointMicroseconds_def double_of_int_def fp_round_def)
next
  case False
  define a where "a = nat \<bar>t\<bar>"
  have apos: "0 < a" using False by (simp add: a_def)
  have ra: "real a = \<bar>real_of_int t\<bar>" by (simp add: a_def)
  obtain m1 e1 where 1: "fp_round (t < 0) a 1 = Finite (t < 0) m1 e1" "0 < m1"
    "\<bar>real m1 * pow2 e1 - real a / real 1\<bar> \<le> (real a / real 1) / 2 ^ 53"
    using fp_round_error[OF apos, of 1 "t < 0"] by auto
  obtain m e where 2: "double_div_1000 (Finite (t < 0) m1 e1) = Finite (t < 0) m e"
    "\<bar>real m * pow2 e - real m1 * pow2 e1 / 1000\<bar> \<le> (real m1 * pow2 e1 / 1000) / 2 ^ 53"
    using double_div_1000_error[OF 1(2), of "t < 0" e1] by auto
  define x1 v where "x1 = real m1 * pow2 e1" and "v = real m * pow2 e"
  have p: "(2::real) ^ 53 = 9007199254740992" "(2::real) ^ 51 = 2251799813685248" by simp_all
  have e1: "\<bar>x1 - real a\<bar> \<le> real a / 9007199254740992" using 1(3) by (simp add: x1_def p)
  have e2: "\<bar>v - x1 / 1000\<bar> \<le> (x1 / 1000) / 9007199254740992" using 2(2) by (simp add: x1_def v_def p)
  have "0 \<le> real a" by simp
  then have "\<bar>v * 1000 - real a\<bar> \<le> real a / 2251799813685248" using e1 e2 by linarith
  then have "\<bar>real m * pow2 e * 1000 - \<bar>real_of_int t\<bar>\<bar> \<le> \<bar>real_of_int t\<bar> / 2 ^ 51"
    by (simp add: v_def ra p)
  moreover have "to_FloatingPointMicroseconds t = Finite (t < 0) m e"
    using 1(1) 2(1) by (simp add: to_FloatingPointMicroseconds_def double_of_int_def a_def)
  ultimately show ?thesis by blast
qed

section \<open>The sink outside a session\<close>

text \<open>
  C3. While no session is open, \<open>WriteProfile\<close> returns the world as it found it: no file
  changes, no event (so no log message either) is added, and the stream keeps its state.
  The operation has no failing outcome.
\<close>

theorem WriteProfile_no_session:
  "m_CurrentSession w = None \<Longrightarrow> WriteProfile tidtext result w = w"
  by (simp add: WriteProfile_def)

theorem WriteProfile_no_session_witness:
  "m_CurrentSession (Instrumentor_init Map.empty) = None \<and>
   WriteProfile show_nat sample (Instrumentor_init Map.empty) = Instrumentor_init Map.empty"
  using WriteProfile_no_session [of "Instrumentor_init Map.empty" show_nat sample]
  by (simp add: Instrumentor_init_def)

section \<open>BeginSession\<close>

text \<open>
  C4. When \<open>BeginSession\<close> finds a session open, it logs one warning that names the
  session it discards and then does to that session what \<open>EndSession\<close> does: the epilogue
  goes to the old file and the file is closed. Only then is the new file opened and given
  its prologue (or, the file refused, the error logged). The call equals a \<open>BeginSession\<close>
  made after that warning and an \<open>EndSession\<close>, the events it adds contain exactly one
  warning, and the name of the discarded session is among the arguments of that warning.
\<close>

theorem BeginSession_while_open:
  assumes "consistent w" and "m_CurrentSession w = Some current"
    and "target (m_OutputStream w) = Some p"
  shows "BeginSession ok name filepath w =
           BeginSession ok name filepath
             (EndSession (w\<lparr>trace := trace w @
                [Log Warning (already_open_message name (InstrumentationSession.Name current))]\<rparr>)) \<and>
         trace (BeginSession ok name filepath w) =
           trace w @
           [Log Warning (already_open_message name (InstrumentationSession.Name current)),
            Wrote p epilogue, Closed p] @
           (if ok then [Opened filepath, Wrote filepath prologue]
            else [OpenFailed filepath, Log Error (cannot_open_message filepath)]) \<and>
         length (filter is_warning (drop (length (trace w)) (trace (BeginSession ok name filepath w)))) = 1 \<and>
         InstrumentationSession.Name current
           \<in> set (already_open_message name (InstrumentationSession.Name current))"
proof -
  let ?w0 = "w\<lparr>trace := trace w @ [Log Warning (already_open_message name (InstrumentationSession.Name current))]\<rparr>"
  have c0: "consistent ?w0" using assms(1) by (auto simp: consistent_def)
  have e: "InternalEndSession ?w0 = ?w0\<lparr>m_CurrentSession := None,
       m_OutputStream := (m_OutputStream ?w0)\<lparr>target := None\<rparr>,
       files := (files ?w0)(p \<mapsto> (case files ?w0 p of None \<Rightarrow> epilogue | Some c \<Rightarrow> c @ epilogue)),
       trace := trace ?w0 @ [Wrote p epilogue, Closed p]\<rparr>"
    using InternalEndSession_open[OF c0, of current p] assms by simp
  have 1: "BeginSession ok name filepath w = BeginSession ok name filepath (InternalEndSession ?w0)"
    using assms(2) by (rule BeginSession_open)
  have 2: "trace (BeginSession ok name filepath (InternalEndSession ?w0)) =
           trace w @
           [Log Warning (already_open_message name (InstrumentationSession.Name current)),
            Wrote p epilogue, Closed p] @
           (if ok then [Opened filepath, Wrote filepath prologue]
            else [OpenFailed filepath, Log Error (cannot_open_message filepath)])"
    by (simp add: e BeginSession_closed)
  have 3: "InstrumentationSession.Name current
             \<in> set (already_open_message name (InstrumentationSession.Name current))"
    by (simp add: already_open_message_def)
  show ?thesis
    using 1 2 3 by (simp add: EndSession_def is_warning_def)
qed

theorem BeginSession_while_open_witness:
  "consistent open_world \<and> m_CurrentSession open_world = Some \<lparr>InstrumentationSession.Name = ''App''\<rparr> \<and>
   target (m_OutputStream open_world) = Some ''/trace.json'' \<and>
   trace (BeginSession True ''Next'' ''/next.json'' open_world) =
     [Opened ''/trace.json'', Wrote ''/trace.json'' prologue,
      Log Warning (already_open_message ''Next'' ''App''),
      Wrote ''/trace.json'' epilogue, Closed ''/trace.json'',
      Opened ''/next.json'', Wrote ''/next.json'' prologue]"
  using BeginSession_while_open [of open_world "\<lparr>InstrumentationSession.Name = ''App''\<rparr>"
      "''/trace.json''" True "''Next''" "''/next.json''"]
  by (simp add: open_world_eq consistent_def sink_defs)

text \<open>
  C5. When the file is refused, \<open>BeginSession\<close> logs an error last and leaves no session
  open. Through any later calls none of which is a \<open>BeginSession\<close> that is granted its file,
  no session is open and no file changes, and a \<open>WriteProfile\<close> then returns the world as it
  found it; the next \<open>BeginSession\<close> that is granted its file opens a session. The operation
  has no failing outcome.
\<close>

theorem BeginSession_cannot_open:
  assumes "consistent w" and "list_all opens_nothing cs"
  shows "m_CurrentSession (BeginSession False name filepath w) = None \<and>
         last (trace (BeginSession False name filepath w)) = Log Error (cannot_open_message filepath) \<and>
         m_CurrentSession (do_calls tidtext cs (BeginSession False name filepath w)) = None \<and>
         files (do_calls tidtext cs (BeginSession False name filepath w)) =
           files (BeginSession False name filepath w) \<and>
         WriteProfile tidtext result (do_calls tidtext cs (BeginSession False name filepath w)) =
           do_calls tidtext cs (BeginSession False name filepath w) \<and>
         m_CurrentSession (BeginSession True name' filepath'
             (do_calls tidtext cs (BeginSession False name filepath w))) =
           Some \<lparr>InstrumentationSession.Name = name'\<rparr>"
proof -
  let ?w' = "BeginSession False name filepath w"
  have c': "consistent ?w'" using assms(1) by (rule consistent_BeginSession)
  have n': "m_CurrentSession ?w' = None" using assms(1) by (rule BeginSession_refused_closed)
  have k: "m_CurrentSession (do_calls tidtext cs ?w') = None \<and>
           files (do_calls tidtext cs ?w') = files ?w'"
    using closed_stays_closed[OF c' n' assms(2)] .
  have c'': "consistent (do_calls tidtext cs ?w')" using c' by (rule consistent_do_calls)
  have t'': "target (m_OutputStream (do_calls tidtext cs ?w')) = None"
    using c'' k by (simp add: consistent_def)
  show ?thesis
    using n' k t'' BeginSession_refused_last[OF assms(1)]
    by (simp add: WriteProfile_def BeginSession_closed)
qed

theorem BeginSession_cannot_open_witness:
  "consistent (Instrumentor_init Map.empty) \<and>
   list_all opens_nothing [Write sample, End, Begin False ''B'' ''/b.json''] \<and>
   m_CurrentSession (BeginSession False ''A'' ''/a.json'' (Instrumentor_init Map.empty)) = None \<and>
   files (do_calls show_nat [Write sample, End, Begin False ''B'' ''/b.json'']
            (BeginSession False ''A'' ''/a.json'' (Instrumentor_init Map.empty))) =
     files (BeginSession False ''A'' ''/a.json'' (Instrumentor_init Map.empty))"
  using BeginSession_cannot_open [of "Instrumentor_init Map.empty" "[Write sample, End, Begin False ''B'' ''/b.json'']"
     "''A''" "''/a.json''" show_nat sample]
  by (simp add: consistent_init)

text \<open>
  C10. A \<open>BeginSession\<close> whose file is refused while a session is open has ended that
  session all the same: the epilogue is in the old file, the stream is closed and no
  session is open, and the refusal of the new file comes after all that in the trace.
\<close>

theorem BeginSession_failure_ends_prior_session:
  assumes "consistent w" and "m_CurrentSession w = Some current"
    and "target (m_OutputStream w) = Some p"
  shows "m_CurrentSession (BeginSession False name filepath w) = None \<and>
         target (m_OutputStream (BeginSession False name filepath w)) = None \<and>
         files (BeginSession False name filepath w) =
           (files w)(p \<mapsto> (case files w p of None \<Rightarrow> epilogue | Some c \<Rightarrow> c @ epilogue)) \<and>
         trace (BeginSession False name filepath w) =
           trace w @
           [Log Warning (already_open_message name (InstrumentationSession.Name current)),
            Wrote p epilogue, Closed p, OpenFailed filepath,
            Log Error (cannot_open_message filepath)]"
proof -
  let ?w0 = "w\<lparr>trace := trace w @ [Log Warning (already_open_message name (InstrumentationSession.Name current))]\<rparr>"
  have c0: "consistent ?w0" using assms(1) by (auto simp: consistent_def)
  have e: "InternalEndSession ?w0 = ?w0\<lparr>m_CurrentSession := None,
       m_OutputStream := (m_OutputStream ?w0)\<lparr>target := None\<rparr>,
       files := (files ?w0)(p \<mapsto> (case files ?w0 p of None \<Rightarrow> epilogue | Some c \<Rightarrow> c @ epilogue)),
       trace := trace ?w0 @ [Wrote p epilogue, Closed p]\<rparr>"
    using InternalEndSession_open[OF c0, of current p] assms by simp
  have 1: "BeginSession False name filepath w = BeginSession False name filepath (InternalEndSession ?w0)"
    using assms(2) by (rule BeginSession_open)
  show ?thesis
    unfolding 1 by (simp add: e BeginSession_closed)
qed

theorem BeginSession_failure_ends_prior_session_witness:
  "consistent open_world \<and> m_CurrentSession open_world = Some \<lparr>InstrumentationSession.Name = ''App''\<rparr> \<and>
   target (m_OutputStream open_world) = Some ''/trace.json'' \<and>
   m_CurrentSession (BeginSession False ''Next'' ''/next.json'' open_world) = None \<and>
   files (BeginSession False ''Next'' ''/next.json'' open_world) =
     [''/trace.json'' \<mapsto> prologue @ epilogue]"
  using BeginSession_failure_ends_prior_session [of open_world
      "\<lparr>InstrumentationSession.Name = ''App''\<rparr>" "''/trace.json''" "''Next''" "''/next.json''"]
  by (simp add: open_world_eq consistent_def sink_defs)

section \<open>The text of a record\<close>

text \<open>
  C2, as the code has it. In an open session \<open>WriteProfile\<close> appends the record to the file
  with \<open>ts\<close> in fixed notation with exactly three digits after the decimal point whenever
  the start is finite, as it is in every record a timer hands over; \<open>dur\<close> is an integer
  count and is written as a decimal integer, without a decimal point.
\<close>

theorem WriteProfile_number_format:
  assumes "consistent w" and "m_CurrentSession w = Some x"
    and "target (m_OutputStream w) = Some p" and "files w p = Some c"
  shows \<open>files (WriteProfile tidtext r w) p =
           Some (c @ '',{"cat":"function","dur":'' @ show_int (ElapsedTime r) @
                 '',"name":"'' @ replace_quotes (ProfileResult.Name r) @
                 ''","ph":"X","pid":0,"tid":'' @ tidtext (ThreadID r) @
                 '',"ts":'' @ show_fixed3 (Start r) @ ''}'') \<and>
         decimal_integer (show_int (ElapsedTime r)) \<and>
         \<not> fixed3 (show_int (ElapsedTime r)) \<and>
         (is_finite (Start r) \<longrightarrow> fixed3 (show_fixed3 (Start r))) \<and>
         list_all (\<lambda>r'. fixed3 (show_fixed3 (Start r'))) (snd (Stop now tid t))\<close>
proof -
  have "files (WriteProfile tidtext r w) p = Some (c @ profile_json tidtext r)"
    by (simp add: WriteProfile_open[OF assms])
  moreover have "fixed3 (show_fixed3 (to_FloatingPointMicroseconds (m_StartTimepoint t)))"
    using to_FloatingPointMicroseconds_finite by (rule fixed3_show_fixed3)
  ultimately show ?thesis
    by (simp add: profile_json_def show_int_decimal show_int_not_fixed3 fixed3_show_fixed3 Stop_def
        del: show_fixed3.simps)
qed

theorem WriteProfile_number_format_witness:
  \<open>consistent open_world \<and>
   m_CurrentSession open_world = Some \<lparr>InstrumentationSession.Name = ''App''\<rparr> \<and>
   target (m_OutputStream open_world) = Some ''/trace.json'' \<and>
   files open_world ''/trace.json'' = Some prologue \<and>
   is_finite (Start quoted_sample) \<and>
   show_fixed3 (Start quoted_sample) = ''154320.875'' \<and>
   fixed3 (show_fixed3 (Start quoted_sample)) \<and>
   show_int (ElapsedTime quoted_sample) = ''1500'' \<and>
   \<not> fixed3 (show_int (ElapsedTime quoted_sample))\<close>
  using WriteProfile_number_format [of open_world "\<lparr>InstrumentationSession.Name = ''App''\<rparr>"
      "''/trace.json''" prologue show_nat quoted_sample]
  by (simp add: open_world_eq consistent_def eval_defs)

text \<open>A record with an elapsed time of seven microseconds is written with \<open>"dur":7\<close>.\<close>

theorem dur_has_no_decimals:
  \<open>files (WriteProfile show_nat sample open_world) ''/trace.json'' =
     Some (prologue @
           '',{"cat":"function","dur":7,"name":"Load","ph":"X","pid":0,"tid":1,"ts":2.500}'') \<and>
   \<not> fixed3 ''7''\<close>
  by (simp add: open_world_eq sink_defs eval_defs fixed3_def)

text \<open>
  C6, as the code has it. The name goes into the record with every double quote replaced
  by a single quote and no other character changed. When double quotes are the only
  problematic characters of the name, the start is finite and the thread id prints as a JSON
  number, the record after its separating comma is a JSON text.
\<close>

theorem WriteProfile_name_escaping:
  assumes "consistent w" and "m_CurrentSession w = Some x"
    and "target (m_OutputStream w) = Some p"
  shows \<open>trace (WriteProfile tidtext r w) =
           trace w @
           [Wrote p ('',{"cat":"function","dur":'' @ show_int (ElapsedTime r) @ '',"name":"'' @
                     map (\<lambda>c. if c = CHR 0x22 then CHR 0x27 else c) (ProfileResult.Name r) @
                     ''","ph":"X","pid":0,"tid":'' @ tidtext (ThreadID r) @
                     '',"ts":'' @ show_fixed3 (Start r) @ ''}'')] \<and>
         (json_safe tidtext r \<longrightarrow> json_valid (tl (profile_json tidtext r)))\<close>
proof -
  have "\<not> failed (m_OutputStream w)" using assms by (auto simp: consistent_def)
  then have "trace (WriteProfile tidtext r w) = trace w @ [Wrote p (profile_json tidtext r)]"
    using assms by (simp add: WriteProfile_def stream_write_def Let_def)
  moreover have "json_safe tidtext r \<Longrightarrow> json_valid (tl (profile_json tidtext r))"
    using run_profile_object[of tidtext r "[]"] by (simp add: json_valid_def)
  ultimately show ?thesis
    by (auto simp: profile_json_def replace_quotes_def simp del: show_fixed3.simps)
qed

theorem WriteProfile_name_escaping_witness:
  \<open>consistent open_world \<and>
   m_CurrentSession open_world = Some \<lparr>InstrumentationSession.Name = ''App''\<rparr> \<and>
   target (m_OutputStream open_world) = Some ''/trace.json'' \<and>
   json_safe show_nat quoted_sample \<and>
   tl (profile_json show_nat quoted_sample) =
     ''{"cat":"function","dur":1500,"name":"say '' @ [CHR 0x27] @ ''hi'' @ [CHR 0x27] @
     ''","ph":"X","pid":0,"tid":42,"ts":154320.875}'' \<and>
   json_valid (tl (profile_json show_nat quoted_sample))\<close>
  using WriteProfile_name_escaping [of open_world "\<lparr>InstrumentationSession.Name = ''App''\<rparr>"
      "''/trace.json''" show_nat quoted_sample]
  by (simp add: open_world_eq consistent_def json_safe_def eval_defs json_eval)

text \<open>
  A record with a plain name and an infinite start is written with \<open>"ts":inf\<close>, which is
  not JSON.
\<close>

theorem infinite_start_breaks_json:
  \<open>list_all (\<lambda>c. \<not> json_problematic c) (ProfileResult.Name infinite_sample) \<and>
   tl (profile_json show_nat infinite_sample) =
     ''{"cat":"function","dur":7,"name":"Load","ph":"X","pid":0,"tid":1,"ts":inf}'' \<and>
   \<not> json_valid (tl (profile_json show_nat infinite_sample))\<close>
  by (simp add: eval_defs json_eval)

section \<open>The file of a session\<close>

text \<open>
  C8, as the code has it. After any calls, a session that is begun, receives the records
  \<open>rs\<close> and is ended by \<open>EndSession\<close> leaves in its file the prologue, the records in
  order, and the epilogue, each once; so it does when it is ended by the next
  \<open>BeginSession\<close> instead, unless that call reopens the same file. The content is a JSON
  text when every record has a name whose only problematic characters are double quotes,
  a finite start and a thread id that prints as a JSON number.
\<close>

theorem session_file_content:
  "files (do_calls tidtext (before @ Begin True name filepath # map Write rs @ [End])
            (Instrumentor_init fs)) filepath =
     Some (prologue @ concat (map (profile_json tidtext) rs) @ epilogue) \<and>
   (\<not> ok \<or> filepath' \<noteq> filepath \<longrightarrow>
      files (do_calls tidtext
               (before @ Begin True name filepath # map Write rs @ [Begin ok name' filepath'])
               (Instrumentor_init fs)) filepath =
        Some (prologue @ concat (map (profile_json tidtext) rs) @ epilogue)) \<and>
   (list_all (json_safe tidtext) rs \<longrightarrow>
      json_valid (prologue @ concat (map (profile_json tidtext) rs) @ epilogue))"
proof -
  have c: "consistent (do_calls tidtext before (Instrumentor_init fs))"
    using consistent_init by (rule consistent_do_calls)
  show ?thesis
    using session_file[OF c] session_file_replaced[OF c] json_valid_file
    by (simp add: do_calls_append)
qed

theorem session_file_content_witness:
  \<open>list_all (json_safe show_nat) [sample, quoted_sample] \<and>
   files (do_calls show_nat
            ([Write sample, Begin True ''Old'' ''/old.json''] @
             Begin True ''App'' ''/trace.json'' # map Write [sample, quoted_sample] @ [End])
            (Instrumentor_init Map.empty)) ''/trace.json'' =
     Some (''{"otherData": {},"traceEvents":[{}'' @
           '',{"cat":"function","dur":7,"name":"Load","ph":"X","pid":0,"tid":1,"ts":2.500}'' @
           '',{"cat":"function","dur":1500,"name":"say '' @ [CHR 0x27] @ ''hi'' @ [CHR 0x27] @
           ''","ph":"X","pid":0,"tid":42,"ts":154320.875}'' @
           '']}'') \<and>
   ''/next.json'' \<noteq> ''/trace.json'' \<and>
   files (do_calls show_nat
            ([Write sample, Begin True ''Old'' ''/old.json''] @
             Begin True ''App'' ''/trace.json'' # map Write [sample, quoted_sample] @
             [Begin True ''Next'' ''/next.json''])
            (Instrumentor_init Map.empty)) ''/trace.json'' =
     Some (prologue @ concat (map (profile_json show_nat) [sample, quoted_sample]) @ epilogue) \<and>
   json_valid (prologue @ concat (map (profile_json show_nat) [sample, quoted_sample]) @ epilogue)\<close>
  using session_file_content [of show_nat "[Write sample, Begin True ''Old'' ''/old.json'']"
      "''App''" "''/trace.json''" "[sample, quoted_sample]" Map.empty True "''/next.json''" "''Next''"]
  by (simp add: json_safe_def eval_defs json_eval)

text \<open>
  A session with one record whose name is a backslash leaves a file that is not JSON: the
  backslash escapes the quote that should end the name.
\<close>

theorem backslash_name_breaks_json:
  \<open>files (do_calls show_nat [Begin True ''App'' ''/trace.json'', Write backslash_sample, End]
            (Instrumentor_init Map.empty)) ''/trace.json'' =
     Some (''{"otherData": {},"traceEvents":[{}'' @
           '',{"cat":"function","dur":7,"name":"'' @ [CHR 0x5C] @
           ''","ph":"X","pid":0,"tid":1,"ts":2.500}'' @
           '']}'') \<and>
   \<not> json_valid (''{"otherData": {},"traceEvents":[{}'' @
           '',{"cat":"function","dur":7,"name":"'' @ [CHR 0x5C] @
           ''","ph":"X","pid":0,"tid":1,"ts":2.500}'' @
           '']}'')\<close>
  by (simp add: Instrumentor_init_def sink_defs eval_defs json_eval)

section \<open>The timer\<close>

text \<open>
  C1, as the code has it. The destructor calls \<open>Stop()\<close> only when the timer has not
  stopped, but \<open>Stop()\<close> itself does not look at the flag and hands a record to
  \<open>WriteProfile\<close> on every call. So a timer stopped explicitly \<open>n\<close> times and then destroyed
  has handed over \<open>max 1 n\<close> records: exactly one when \<open>Stop()\<close> is called explicitly at
  most once.
\<close>

theorem timer_reports:
  "length (lifetime stops final (InstrumentationTimer_init now name)) = max 1 (length stops) \<and>
   (length stops \<le> 1 \<longrightarrow> length (lifetime stops final (InstrumentationTimer_init now name)) = 1) \<and>
   InstrumentationTimer_destroy now' tid t = (if m_Stopped t then (t, []) else Stop now' tid t)"
proof -
  obtain t1 out1 where e: "explicit_stops stops (InstrumentationTimer_init now name) = (t1, out1)"
    by (cases "explicit_stops stops (InstrumentationTimer_init now name)")
  have l: "length out1 = length stops" using explicit_stops_length[of stops "InstrumentationTimer_init now name"] e by simp
  have s: "m_Stopped t1 = (stops \<noteq> [])"
    using explicit_stops_stopped[of stops "InstrumentationTimer_init now name"] e
    by (simp add: InstrumentationTimer_init_def)
  have "length (lifetime stops final (InstrumentationTimer_init now name)) =
          length out1 + (if m_Stopped t1 then 0 else 1)"
    by (simp add: lifetime_def e InstrumentationTimer_destroy_def Stop_def)
  then have "length (lifetime stops final (InstrumentationTimer_init now name)) = max 1 (length stops)"
    using l s by (cases stops) simp_all
  then show ?thesis by (auto simp: InstrumentationTimer_destroy_def)
qed

theorem timer_reports_witness:
  "length [(5000, 1)] \<le> (1::nat) \<and>
   lifetime [(5000, 1)] (9000, 1) (InstrumentationTimer_init 2000 ''Load'') =
     [\<lparr>ProfileResult.Name = ''Load'', Start = to_FloatingPointMicroseconds 2000, ElapsedTime = 3, ThreadID = 1\<rparr>]"
  using timer_reports [of "[(5000, 1)]" "(9000, 1)" 2000 "''Load''"]
  by (simp add: lifetime_def Stop_def InstrumentationTimer_destroy_def InstrumentationTimer_init_def to_microseconds_def)

text \<open>Two explicit calls of \<open>Stop()\<close> hand over two records; the second call is not a no-op.\<close>

theorem Stop_twice_reports_twice:
  "length (lifetime [(5000, 1), (7000, 1)] (9000, 1) (InstrumentationTimer_init 2000 ''Load'')) = 2 \<and>
   snd (Stop 7000 1 (fst (Stop 5000 1 (InstrumentationTimer_init 2000 ''Load'')))) \<noteq> []"
  by (simp add: lifetime_def Stop_def InstrumentationTimer_destroy_def InstrumentationTimer_init_def)

text \<open>
  C7, as the code has it. The elapsed time in the record is the stop reading truncated to
  whole microseconds minus the start reading truncated to whole microseconds; for readings
  \<open>0 \<le> start \<le> now\<close> that is the truncated difference or one microsecond more. The start
  in the record is the start reading converted to floating-point microseconds: a finite
  \<open>double\<close> which, taken times a thousand, is the reading in nanoseconds up to a relative
  error of \<open>2^-51\<close>.
\<close>

theorem Stop_record:
  "snd (Stop now tid t) =
     [\<lparr>ProfileResult.Name = m_Name t,
       Start = to_FloatingPointMicroseconds (m_StartTimepoint t),
       ElapsedTime = to_microseconds now - to_microseconds (m_StartTimepoint t),
       ThreadID = tid\<rparr>] \<and>
   (0 \<le> m_StartTimepoint t \<and> m_StartTimepoint t \<le> now \<longrightarrow>
      to_microseconds (now - m_StartTimepoint t)
        \<le> to_microseconds now - to_microseconds (m_StartTimepoint t) \<and>
      to_microseconds now - to_microseconds (m_StartTimepoint t)
        \<le> to_microseconds (now - m_StartTimepoint t) + 1) \<and>
   (case double_value (to_FloatingPointMicroseconds (m_StartTimepoint t)) of
      None \<Rightarrow> False
    | Some v \<Rightarrow>
        \<bar>v * 1000 - real_of_int (m_StartTimepoint t)\<bar>
          \<le> \<bar>real_of_int (m_StartTimepoint t)\<bar> / 2 ^ 51)"
proof -
  obtain m e where f:
    "to_FloatingPointMicroseconds (m_StartTimepoint t) = Finite (m_StartTimepoint t < 0) m e"
    "\<bar>real m * pow2 e * 1000 - \<bar>real_of_int (m_StartTimepoint t)\<bar>\<bar>
       \<le> \<bar>real_of_int (m_StartTimepoint t)\<bar> / 2 ^ 51"
    using to_FloatingPointMicroseconds_error[of "m_StartTimepoint t"] by blast
  have "\<bar>(if m_StartTimepoint t < 0 then - 1 else 1) * real m * pow2 e * 1000
          - real_of_int (m_StartTimepoint t)\<bar>
        \<le> \<bar>real_of_int (m_StartTimepoint t)\<bar> / 2 ^ 51"
    using f(2) by (cases "m_StartTimepoint t < 0") (simp_all add: abs_if split: if_splits)
  then show ?thesis
    using to_microseconds_diff[of "m_StartTimepoint t" now] by (simp add: Stop_def f(1))
qed

theorem Stop_record_witness:
  "(0::int) \<le> 2500 \<and> (2500::int) \<le> 9100 \<and>
   snd (Stop 9100 1 (InstrumentationTimer_init 2500 ''Load'')) =
     [\<lparr>ProfileResult.Name = ''Load'', Start = Finite False 5629499534213120 (- 51),
       ElapsedTime = 7, ThreadID = 1\<rparr>] \<and>
   to_microseconds (9100 - 2500) = 6 \<and>
   double_value (Finite False 5629499534213120 (- 51)) = Some (5 / 2)"
  using Stop_record [of 9100 1 "InstrumentationTimer_init 2500 ''Load''"]
  by (simp add: InstrumentationTimer_init_def to_microseconds_def to_FloatingPointMicroseconds_def
      double_of_int_def fp_round_def scaled_def bit_length.simps pow2_def)

text \<open>
  A timer started at 999 ns and stopped at 1000 ns reports one microsecond, while the
  difference of one nanosecond truncates to none.
\<close>

theorem Stop_truncates_each_reading:
  "map ElapsedTime (snd (Stop 1000 1 (InstrumentationTimer_init 999 ''Load''))) = [1] \<and>
   to_microseconds (1000 - 999) = 0"
  by (simp add: Stop_def InstrumentationTimer_init_def to_microseconds_def)

end
